theory Spec2Isabelle
  imports Main "HOL-Library.Char_ord" "HOL-Library.List_Lexorder"
begin

section \<open>Snapshot monitoring: data model\<close>

text \<open>
  The embedding follows \<^verbatim>\<open>client/monitor/snapshots.go\<close>. Instants and durations are
  integers counting nanoseconds, as Go's \<^verbatim>\<open>time.Time\<close> and \<^verbatim>\<open>time.Duration\<close> do.
  Go's \<^verbatim>\<open>uint\<close> counters are natural numbers: every count is bounded by the number of
  snapshot records held in memory, so the 64-bit wrap-around is out of reach.
\<close>

datatype error = Error string | Wrap string error | Panic string

text \<open>\<^verbatim>\<open>zfs.FilesystemVersion\<close>: the two fields the monitor reads.\<close>

record FilesystemVersion =
  Name :: string
  Creation :: int

text \<open>\<^verbatim>\<open>groupItem\<close>: the pointers into the snapshot slice are optional snapshots.\<close>

record groupItem =
  Count :: nat
  Oldest :: "FilesystemVersion option"
  Latest :: "FilesystemVersion option"

subsection \<open>Prefix grouping\<close>

text \<open>\<^verbatim>\<open>strings.HasPrefix(s, p)\<close>: byte-wise comparison of the first \<open>len(p)\<close> bytes.\<close>

definition HasPrefix :: "string \<Rightarrow> string \<Rightarrow> bool" where
  "HasPrefix s p = (length p \<le> length s \<and> take (length p) s = p)"

text \<open>The body of the innermost \<^verbatim>\<open>if\<close> of \<^verbatim>\<open>groupSnapshots\<close>, applied to \<open>grouped[j]\<close>.\<close>

definition addSnapshot :: "groupItem \<Rightarrow> FilesystemVersion \<Rightarrow> groupItem" where
  "addSnapshot g s =
     g\<lparr>Count := Count g + 1,
       Oldest := (case Oldest g of
                    None \<Rightarrow> Some s
                  | Some old \<Rightarrow> if Creation s < Creation old then Some s else Some old),
       Latest := (case Latest g of
                    None \<Rightarrow> Some s
                  | Some new \<Rightarrow> if Creation new < Creation s then Some s else Some new)\<rparr>"

text \<open>
  The inner loop \<^verbatim>\<open>for j, p := range prefixes\<close> for one snapshot: the first prefix that
  is empty or a prefix of the name receives the snapshot, then the loop breaks.
\<close>

fun groupOne :: "FilesystemVersion \<Rightarrow> string list \<Rightarrow> nat \<Rightarrow> groupItem list \<Rightarrow> groupItem list" where
  "groupOne s [] j grouped = grouped"
| "groupOne s (p # ps) j grouped =
     (if p = [] \<or> HasPrefix (Name s) p
      then grouped[j := addSnapshot (grouped ! j) s]
      else groupOne s ps (Suc j) grouped)"

definition emptyGroup :: groupItem where
  "emptyGroup = \<lparr>Count = 0, Oldest = None, Latest = None\<rparr>"

definition groupSnapshots :: "FilesystemVersion list \<Rightarrow> string list \<Rightarrow> groupItem list" where
  "groupSnapshots snapshots prefixes =
     foldl (\<lambda>grouped s. groupOne s prefixes 0 grouped)
       (replicate (length prefixes) emptyGroup) snapshots"

text \<open>\<^verbatim>\<open>groupItem.Snapshot\<close>\<close>

definition Snapshot :: "groupItem \<Rightarrow> bool \<Rightarrow> FilesystemVersion option" where
  "Snapshot g oldest_first = (if oldest_first then Oldest g else Latest g)"

subsection \<open>Vocabulary of the grouping properties\<close>

text \<open>A prefix matches a name when it is empty or a byte-level prefix of it.\<close>

definition matches :: "string \<Rightarrow> string \<Rightarrow> bool" where
  "matches p name = (p = [] \<or> HasPrefix name p)"

text \<open>Index \<open>i\<close> is the first matching prefix of \<open>name\<close>.\<close>

definition first_match_at :: "string list \<Rightarrow> nat \<Rightarrow> string \<Rightarrow> bool" where
  "first_match_at prefixes i name =
     (i < length prefixes \<and> matches (prefixes ! i) name \<and>
      (\<forall>j<i. \<not> matches (prefixes ! j) name))"

text \<open>The snapshots of group \<open>i\<close>, in the order of the input list.\<close>

definition group_members :: "FilesystemVersion list \<Rightarrow> string list \<Rightarrow> nat \<Rightarrow> FilesystemVersion list" where
  "group_members snapshots prefixes i =
     filter (\<lambda>s. first_match_at prefixes i (Name s)) snapshots"


section \<open>Formatting\<close>

text \<open>
  Messages are built with \<^verbatim>\<open>fmt.Sprintf\<close>. The standard library's escaping of a quoted
  string body and its rendering of a duration are taken as parameters; \<open>%q\<close> wraps the
  escaped body in double quotes, as \<^verbatim>\<open>strconv.Quote\<close> does.
\<close>

record formatter =
  escape :: "string \<Rightarrow> string"
  DurationString :: "int \<Rightarrow> string"

definition Quote :: "'a formatter_scheme \<Rightarrow> string \<Rightarrow> string" where
  "Quote F s = CHR 0x22 # escape F s @ [CHR 0x22]"

definition digit :: "nat \<Rightarrow> char" where
  "digit n = ''0123456789'' ! (n mod 10)"

fun decimal :: "nat \<Rightarrow> string" where
  "decimal n = (if n < 10 then [digit n] else decimal (n div 10) @ [digit (n mod 10)])"

declare decimal.simps [simp del]

datatype any = AString string | AUint nat | ADuration int

text \<open>
  One operand under one verb. The program uses \<open>%s\<close> and \<open>%q\<close> on strings, \<open>%d\<close> on
  \<^verbatim>\<open>uint\<close>, and \<open>%v\<close> and \<open>%q\<close> on durations (a \<^verbatim>\<open>Stringer\<close>). Any other pairing is
  a bad verb in Go, printed as \<open>%!verb(type=value)\<close>; it is abbreviated here and is
  not reached by the format strings of this program.
\<close>

fun formatArg :: "'a formatter_scheme \<Rightarrow> char \<Rightarrow> any \<Rightarrow> string" where
  "formatArg F v (AString s) =
     (if v = CHR ''s'' \<or> v = CHR ''v'' then s
      else if v = CHR ''q'' then Quote F s
      else ''%!'' @ [v] @ ''(string='' @ s @ '')'')"
| "formatArg F v (AUint n) =
     (if v = CHR ''d'' \<or> v = CHR ''v'' then decimal n
      else ''%!'' @ [v] @ ''(uint='' @ decimal n @ '')'')"
| "formatArg F v (ADuration d) =
     (if v = CHR ''s'' \<or> v = CHR ''v'' then DurationString F d
      else if v = CHR ''q'' then Quote F (DurationString F d)
      else ''%!'' @ [v] @ ''(time.Duration='' @ DurationString F d @ '')'')"

text \<open>
  \<^verbatim>\<open>fmt.Sprintf\<close> for format strings made of literal text and bare verbs (no flags or
  widths). A verb with no operand left prints \<open>%!v(MISSING)\<close>; operands left over when
  the format ends are reported by Go as \<open>%!(EXTRA ...)\<close>, abbreviated here.
\<close>

fun Sprintf :: "'a formatter_scheme \<Rightarrow> string \<Rightarrow> any list \<Rightarrow> string" where
  "Sprintf F [] [] = []"
| "Sprintf F [] (a # as) = ''%!(EXTRA)''"
| "Sprintf F [c] as = (if c = CHR ''%'' then ''%!(NOVERB)'' else c # Sprintf F [] as)"
| "Sprintf F (c # v # cs) as =
     (if c \<noteq> CHR ''%'' then c # Sprintf F (v # cs) as
      else if v = CHR ''%'' then CHR ''%'' # Sprintf F cs as
      else (case as of
              [] \<Rightarrow> ''%!'' @ [v] @ ''(MISSING)'' @ Sprintf F cs []
            | a # as' \<Rightarrow> formatArg F v a @ Sprintf F cs as'))"

section \<open>Time\<close>

definition Second :: int where
  "Second = 1000000000"

definition maxDuration :: int where
  "maxDuration = 2 ^ 63 - 1"

definition minDuration :: int where
  "minDuration = - (2 ^ 63)"

text \<open>
  \<^verbatim>\<open>time.Since(t)\<close> is \<^verbatim>\<open>time.Now().Sub(t)\<close>; \<^verbatim>\<open>Sub\<close> saturates at the ends of the
  64-bit duration range. The clock reading is a parameter of the run.
\<close>

definition Since :: "int \<Rightarrow> int \<Rightarrow> int" where
  "Since now t =
     (let d = now - t in
      if d < minDuration then minDuration
      else if maxDuration < d then maxDuration
      else d)"

text \<open>Go's \<open>%\<close> truncates towards zero: the remainder has the sign of the dividend.\<close>

definition go_rem :: "int \<Rightarrow> int \<Rightarrow> int" where
  "go_rem a b = sgn a * (\<bar>a\<bar> mod \<bar>b\<bar>)"

text \<open>\<^verbatim>\<open>Duration.Truncate\<close>: round towards zero to a multiple of \<open>m\<close>.\<close>

definition Truncate :: "int \<Rightarrow> int \<Rightarrow> int" where
  "Truncate d m = (if m \<le> 0 then d else d - go_rem d m)"

section \<open>Configuration\<close>

text \<open>\<^verbatim>\<open>config.MonitorCount\<close> and \<^verbatim>\<open>config.MonitorCreation\<close>, as the monitor reads them.\<close>

record MonitorCount =
  count_Prefix :: string
  count_Warning :: nat
  count_Critical :: nat

record MonitorCreation =
  age_Prefix :: string
  age_Warning :: int
  age_Critical :: int

text \<open>
  Modelled from the spec: the result of \<^verbatim>\<open>JobEnum.MonitorSnapshots()\<close>, whose
  declaration is outside the excerpt; every job carries
  \<open>monitor: {latest: [AgeRule], oldest: [AgeRule], count: [CountRule]}\<close>.
\<close>

record MonitorSnapshots =
  cfg_Latest :: "MonitorCreation list"
  cfg_Oldest :: "MonitorCreation list"
  cfg_Count :: "MonitorCount list"

type_synonym FilesystemsFilter = "(string \<times> bool) list"

text \<open>
  \<^verbatim>\<open>config.JobEnum\<close>: the value held in \<open>Ret\<close>, with the fields the monitor reads (name,
  filter or root filesystem, monitor rules). \<open>OtherJob\<close> stands for any other value of
  the interface.
\<close>

datatype JobEnum =
    PushJob string FilesystemsFilter MonitorSnapshots
  | SnapJob string FilesystemsFilter MonitorSnapshots
  | SourceJob string FilesystemsFilter MonitorSnapshots
  | PullJob string string MonitorSnapshots
  | SinkJob string string MonitorSnapshots
  | OtherJob

text \<open>\<^verbatim>\<open>JobEnum.Name\<close> panics on an unknown job type.\<close>

fun JobName :: "JobEnum \<Rightarrow> error + string" where
  "JobName (SnapJob n _ _) = Inr n"
| "JobName (PushJob n _ _) = Inr n"
| "JobName (SinkJob n _ _) = Inr n"
| "JobName (PullJob n _ _) = Inr n"
| "JobName (SourceJob n _ _) = Inr n"
| "JobName OtherJob = Inl (Panic ''unknown job type'')"

text \<open>
  Modelled from the spec: \<^verbatim>\<open>JobEnum.MonitorSnapshots()\<close> returns the job's monitor
  section. For an unknown job type the run has already panicked in \<open>JobName\<close>.
\<close>

fun JobMonitorSnapshots :: "JobEnum \<Rightarrow> MonitorSnapshots" where
  "JobMonitorSnapshots (PushJob _ _ m) = m"
| "JobMonitorSnapshots (SnapJob _ _ m) = m"
| "JobMonitorSnapshots (SourceJob _ _ m) = m"
| "JobMonitorSnapshots (PullJob _ _ m) = m"
| "JobMonitorSnapshots (SinkJob _ _ m) = m"
| "JobMonitorSnapshots OtherJob = \<lparr>cfg_Latest = [], cfg_Oldest = [], cfg_Count = []\<rparr>"

section \<open>The inventory\<close>

datatype PropertySource = SourceLocal | SourceDefault | SourceInherited | SourceNone
  | SourceTemporary | SourceReceived

record PropertyValue =
  Value :: string
  Source :: PropertySource

text \<open>
  The ZFS layer and the filter package are outside the excerpt; what the monitor calls
  is a parameter of the model, together with the clock and the formatter.
  \<^item> \<open>NewDatasetPath\<close> parses a name into its path segments (\<open>Length\<close> is their number);
  \<^item> \<open>ZFSListIter\<close> is the sequence of items the iterator yields: an error or the name;
  \<^item> \<open>ZFSGetRecursive root\<close> is the map from filesystem to the details of the
    placeholder property, listed in the order the \<^verbatim>\<open>range\<close> loop visits it;
  \<^item> \<open>ZFSListFilesystemVersions\<close> lists the snapshots of a parsed path;
  \<^item> \<open>DatasetMapFilterFromConfig\<close> builds the filter predicate of a job.
\<close>

record world = formatter +
  now :: int
  NewDatasetPath :: "string \<Rightarrow> error + string list"
  ZFSListIter :: "(error + string) list"
  ZFSGetRecursive :: "string \<Rightarrow> error + (string \<times> PropertyValue) list"
  ZFSListFilesystemVersions :: "string list \<Rightarrow> error + FilesystemVersion list"
  DatasetMapFilterFromConfig :: "FilesystemsFilter \<Rightarrow> error + (string list \<Rightarrow> error + bool)"

section \<open>The run state\<close>

text \<open>
  \<^verbatim>\<open>monitoringplugin\<close> status codes. The response object is the sequence of
  \<^verbatim>\<open>UpdateStatus\<close> calls it has received.
\<close>

definition OK :: int where "OK = 0"
definition WARNING :: int where "WARNING = 1"
definition CRITICAL :: int where "CRITICAL = 2"

type_synonym update = "int \<times> string"

text \<open>
  \<^verbatim>\<open>SnapCheck\<close>. \<open>orderedDatasets\<close> is \<open>None\<close> for the nil slice, which \<open>jobDatasets\<close>
  tests for.
\<close>

record SnapCheck =
  counts :: bool
  oldest :: bool
  job :: string
  prefix :: string
  warn :: int
  crit :: int
  countWarn :: nat
  countCrit :: nat
  resp :: "update list"
  age :: int
  snapCount :: nat
  snapName :: string
  failed :: bool
  datasets :: "string \<rightharpoonup> FilesystemVersion list"
  orderedDatasets :: "string list option"
  maxProcs :: int

text \<open>\<^verbatim>\<open>self.resp.UpdateStatus(code, message)\<close>\<close>

definition respUpdateStatus :: "SnapCheck \<Rightarrow> int \<Rightarrow> string \<Rightarrow> SnapCheck" where
  "respUpdateStatus self statusCode statusMessage =
     self\<lparr>resp := resp self @ [(statusCode, statusMessage)]\<rparr>"

definition updateResponse :: "SnapCheck \<Rightarrow> int \<Rightarrow> string \<Rightarrow> SnapCheck" where
  "updateResponse self statusCode statusMessage =
     respUpdateStatus (self\<lparr>failed := failed self \<or> statusCode \<noteq> OK\<rparr>) statusCode statusMessage"

definition updateStatus :: "world \<Rightarrow> SnapCheck \<Rightarrow> int \<Rightarrow> string \<Rightarrow> any list \<Rightarrow> SnapCheck" where
  "updateStatus W self statusCode format a =
     (let statusMessage =
        (if a = [] then Sprintf W ''job %q: %s'' [AString (job self), AString format]
         else Sprintf W ''job %q: '' [AString (job self)] @ Sprintf W format a)
      in updateResponse self statusCode statusMessage)"

definition snapshotType :: "SnapCheck \<Rightarrow> string" where
  "snapshotType self = (if oldest self then ''oldest'' else ''latest'')"


text \<open>
  Modelled from the spec: \<^verbatim>\<open>FilesystemVersion.FullPath\<close>, outside the excerpt; a
  snapshot is identified by \<open>dataset@name\<close>.
\<close>

definition FullPath :: "FilesystemVersion \<Rightarrow> string \<Rightarrow> string" where
  "FullPath snap fsName = fsName @ ''@'' @ Name snap"


section \<open>Resolving the datasets of a job\<close>

text \<open>
  The \<^verbatim>\<open>for item := range zfs.ZFSListIter(...)\<close> loop of \<^verbatim>\<open>datasetsFromFilter\<close>; it
  returns at the first item that fails.
\<close>

fun filterLoop :: "world \<Rightarrow> (string list \<Rightarrow> error + bool) \<Rightarrow> (error + string) list
    \<Rightarrow> string list \<Rightarrow> error + string list" where
  "filterLoop W filesystems [] filtered = Inr filtered"
| "filterLoop W filesystems (item # items) filtered =
     (case item of
        Inl e \<Rightarrow> Inl e
      | Inr name \<Rightarrow>
          (case NewDatasetPath W name of
             Inl e \<Rightarrow> Inl e
           | Inr path \<Rightarrow>
               (case filesystems path of
                  Inl e \<Rightarrow> Inl e
                | Inr ok \<Rightarrow>
                    if ok then filterLoop W filesystems items (filtered @ [name])
                    else filterLoop W filesystems items filtered)))"

definition datasetsFromFilter :: "world \<Rightarrow> FilesystemsFilter \<Rightarrow> error + string list" where
  "datasetsFromFilter W ff =
     (case DatasetMapFilterFromConfig W ff of
        Inl e \<Rightarrow> Inl (Wrap ''invalid filesystems'' e)
      | Inr filesystems \<Rightarrow> filterLoop W filesystems (ZFSListIter W) [])"

text \<open>The \<^verbatim>\<open>for fs, props := range propsByFS\<close> loop of \<^verbatim>\<open>datasetsFromRootFs\<close>.\<close>

fun rootFsLoop :: "world \<Rightarrow> string list \<Rightarrow> int \<Rightarrow> (string \<times> PropertyValue) list
    \<Rightarrow> string list \<Rightarrow> error + string list" where
  "rootFsLoop W rootPath skipN [] filtered = Inr filtered"
| "rootFsLoop W rootPath skipN ((fs, p) # rest) filtered =
     (case NewDatasetPath W fs of
        Inl e \<Rightarrow> Inl e
      | Inr path \<Rightarrow>
          if int (length path) < int (length rootPath) + 1 + skipN
          then rootFsLoop W rootPath skipN rest filtered
          else if Source p = SourceLocal \<and> Value p = ''on''
          then rootFsLoop W rootPath skipN rest filtered
          else rootFsLoop W rootPath skipN rest (filtered @ [fs]))"

definition datasetsFromRootFs :: "world \<Rightarrow> string \<Rightarrow> int \<Rightarrow> error + string list" where
  "datasetsFromRootFs W rootFs skipN =
     (case NewDatasetPath W rootFs of
        Inl e \<Rightarrow> Inl e
      | Inr rootPath \<Rightarrow>
          (case ZFSGetRecursive W rootFs of
             Inl e \<Rightarrow> Inl (Wrap (''properties of '' @ Quote W rootFs) e)
           | Inr propsByFS \<Rightarrow> rootFsLoop W rootPath skipN propsByFS []))"

definition zfsListSnapshots :: "world \<Rightarrow> string \<Rightarrow> error + FilesystemVersion list" where
  "zfsListSnapshots W dataset =
     (case NewDatasetPath W dataset of
        Inl e \<Rightarrow> Inl e
      | Inr fs \<Rightarrow>
          (case ZFSListFilesystemVersions W fs of
             Inl e \<Rightarrow> Inl e
           | Inr snaps \<Rightarrow> Inr snaps))"

text \<open>
  \<^verbatim>\<open>preloadSnapshots\<close>. The worker pool stores one snapshot list per dataset; when every
  load succeeds the resulting cache does not depend on the schedule, and it is computed
  here in dataset order. When a load fails the error is returned and the cache holds
  the lists stored so far.
\<close>

fun preloadLoop :: "world \<Rightarrow> SnapCheck \<Rightarrow> string list \<Rightarrow> error option \<times> SnapCheck" where
  "preloadLoop W self [] = (None, self)"
| "preloadLoop W self (dataset # rest) =
     (case zfsListSnapshots W dataset of
        Inl e \<Rightarrow> (Some e, self)
      | Inr snapshots \<Rightarrow>
          preloadLoop W (self\<lparr>datasets := (datasets self)(dataset \<mapsto> snapshots)\<rparr>) rest)"

text \<open>Ranging over the nil slice runs no iteration.\<close>

definition datasetList :: "SnapCheck \<Rightarrow> string list" where
  "datasetList self = (case orderedDatasets self of None \<Rightarrow> [] | Some ds \<Rightarrow> ds)"

definition preloadSnapshots :: "world \<Rightarrow> SnapCheck \<Rightarrow> error option \<times> SnapCheck" where
  "preloadSnapshots W self = preloadLoop W self (datasetList self)"

text \<open>
  The type switch of \<^verbatim>\<open>jobDatasets\<close>. The error of the default branch names the Go
  type of the value, which the model leaves out.
\<close>

fun jobDatasetsSwitch :: "world \<Rightarrow> JobEnum \<Rightarrow> error + string list" where
  "jobDatasetsSwitch W (PushJob _ ff _) = datasetsFromFilter W ff"
| "jobDatasetsSwitch W (SnapJob _ ff _) = datasetsFromFilter W ff"
| "jobDatasetsSwitch W (SourceJob _ ff _) = datasetsFromFilter W ff"
| "jobDatasetsSwitch W (PullJob _ rootFS _) = datasetsFromRootFs W rootFS 0"
| "jobDatasetsSwitch W (SinkJob _ rootFS _) = datasetsFromRootFs W rootFS 1"
| "jobDatasetsSwitch W OtherJob = Inl (Error ''unknown job type'')"

text \<open>\<^verbatim>\<open>slices.Sort\<close> orders strings byte-wise, which is the order of \<open>sort\<close> on \<open>string\<close>.\<close>

definition jobDatasets :: "world \<Rightarrow> SnapCheck \<Rightarrow> JobEnum \<Rightarrow> error option \<times> SnapCheck" where
  "jobDatasets W self jobConfig =
     (if orderedDatasets self \<noteq> None then (None, self)
      else case jobDatasetsSwitch W jobConfig of
             Inl e \<Rightarrow> (Some e, self)
           | Inr found \<Rightarrow>
               preloadSnapshots W
                 (self\<lparr>orderedDatasets := Some (sort found), datasets := Map.empty\<rparr>))"

text \<open>
  \<^verbatim>\<open>SnapCheck.snapshots\<close>: the cache, with a synchronous load on a miss. The cache map
  exists whenever \<open>orderedDatasets\<close> is set, both being assigned in \<open>jobDatasets\<close>.
\<close>

definition snapshots :: "world \<Rightarrow> SnapCheck \<Rightarrow> string
    \<Rightarrow> (error + FilesystemVersion list) \<times> SnapCheck" where
  "snapshots W self fsName =
     (case datasets self fsName of
        Some snaps \<Rightarrow> (Inr snaps, self)
      | None \<Rightarrow>
          (case zfsListSnapshots W fsName of
             Inl e \<Rightarrow> (Inl e, self)
           | Inr snaps \<Rightarrow> (Inr snaps, self\<lparr>datasets := (datasets self)(fsName \<mapsto> snaps)\<rparr>)))"

section \<open>Count rules\<close>

definition overrideCountRules :: "SnapCheck \<Rightarrow> JobEnum \<Rightarrow> error + MonitorCount list" where
  "overrideCountRules self j =
     (if prefix self \<noteq> []
      then Inr [\<lparr>count_Prefix = prefix self, count_Warning = countWarn self,
                 count_Critical = countCrit self\<rparr>]
      else let rules = cfg_Count (JobMonitorSnapshots j) in
        if length rules = 0 then Inl (Error ''no monitor rules or cli args defined'')
        else Inr rules)"

definition countMsg :: string where
  "countMsg = ''%s: %q snapshots count: %d (%d)''"

definition noSnapshotsMsg :: string where
  "noSnapshotsMsg = ''%q has no snapshots with prefix %q''"

definition applyCountRule :: "world \<Rightarrow> SnapCheck \<Rightarrow> MonitorCount \<Rightarrow> string \<Rightarrow> groupItem
    \<Rightarrow> bool \<times> SnapCheck" where
  "applyCountRule W self rule fsName g =
     (if Count g = 0 \<and> count_Prefix rule = [] then (True, self)
      else if Count g = 0 then
        (False, respUpdateStatus self CRITICAL
           (Sprintf W noSnapshotsMsg [AString fsName, AString (count_Prefix rule)]))
      else if count_Critical rule \<le> Count g then
        (False, updateStatus W self CRITICAL countMsg
           [AString fsName, AString (count_Prefix rule), AUint (Count g),
            AUint (count_Critical rule)])
      else if 0 < count_Warning rule \<and> count_Warning rule \<le> Count g then
        (False, updateStatus W self WARNING countMsg
           [AString fsName, AString (count_Prefix rule), AUint (Count g),
            AUint (count_Warning rule)])
      else (True, self\<lparr>snapCount := snapCount self + Count g\<rparr>))"

text \<open>
  The loop \<^verbatim>\<open>for i := range rules\<close> of \<^verbatim>\<open>checkSnapsCounts\<close>, from index \<open>i\<close> on; it
  breaks at the first rule whose evaluation returns false. \<open>grouped\<close> has one entry per
  rule, so \<open>grouped ! i\<close> is in range.
\<close>

fun countRulesLoop :: "world \<Rightarrow> SnapCheck \<Rightarrow> string \<Rightarrow> MonitorCount list \<Rightarrow> groupItem list
    \<Rightarrow> nat \<Rightarrow> SnapCheck" where
  "countRulesLoop W self fsName [] grouped i = self"
| "countRulesLoop W self fsName (rule # rules) grouped i =
     (case applyCountRule W self rule fsName (grouped ! i) of
        (True, self') \<Rightarrow> countRulesLoop W self' fsName rules grouped (Suc i)
      | (False, self') \<Rightarrow> self')"

definition checkSnapsCounts :: "world \<Rightarrow> SnapCheck \<Rightarrow> string \<Rightarrow> MonitorCount list
    \<Rightarrow> error option \<times> SnapCheck" where
  "checkSnapsCounts W self fsName rules =
     (case snapshots W self fsName of
        (Inl e, self') \<Rightarrow> (Some e, self')
      | (Inr snaps, self') \<Rightarrow>
          (let prefixes = map count_Prefix rules;
               grouped = groupSnapshots snaps prefixes
           in (None, countRulesLoop W self' fsName rules grouped 0)))"

fun checkCountsLoop :: "world \<Rightarrow> SnapCheck \<Rightarrow> string list \<Rightarrow> MonitorCount list
    \<Rightarrow> error option \<times> SnapCheck" where
  "checkCountsLoop W self [] rules = (None, self)"
| "checkCountsLoop W self (dataset # rest) rules =
     (case checkSnapsCounts W self dataset rules of
        (Some e, self') \<Rightarrow> (Some e, self')
      | (None, self') \<Rightarrow> checkCountsLoop W self' rest rules)"

definition checkCounts :: "world \<Rightarrow> SnapCheck \<Rightarrow> JobEnum \<Rightarrow> error option \<times> SnapCheck" where
  "checkCounts W self j =
     (case overrideCountRules self j of
        Inl e \<Rightarrow> (Some e, self)
      | Inr rules \<Rightarrow> checkCountsLoop W self (datasetList self) rules)"

section \<open>Age rules\<close>

definition rulesByCreation :: "SnapCheck \<Rightarrow> JobEnum \<Rightarrow> MonitorCreation list" where
  "rulesByCreation self j =
     (let cfg = JobMonitorSnapshots j in
      if oldest self then cfg_Oldest cfg else cfg_Latest cfg)"

definition overrideAgeRules :: "SnapCheck \<Rightarrow> MonitorCreation list
    \<Rightarrow> error + MonitorCreation list" where
  "overrideAgeRules self rules =
     (if prefix self \<noteq> []
      then Inr [\<lparr>age_Prefix = prefix self, age_Warning = warn self, age_Critical = crit self\<rparr>]
      else if length rules = 0 then Inl (Error ''no monitor rules or cli args defined'')
      else Inr rules)"

definition tooOldFmt :: string where
  "tooOldFmt = ''%s %q too old: %q > %q''"

definition applyCreationRule :: "world \<Rightarrow> SnapCheck \<Rightarrow> MonitorCreation
    \<Rightarrow> FilesystemVersion option \<Rightarrow> string \<Rightarrow> bool \<times> SnapCheck" where
  "applyCreationRule W self rule snap fsName =
     (case snap of
        None \<Rightarrow>
          if age_Prefix rule = [] then (True, self)
          else (False, respUpdateStatus self CRITICAL
                  (Sprintf W noSnapshotsMsg [AString fsName, AString (age_Prefix rule)]))
      | Some s \<Rightarrow>
          (let d = Truncate (Since (now W) (Creation s)) Second in
           if age_Critical rule \<le> d then
             (False, updateStatus W self CRITICAL tooOldFmt
                [AString (snapshotType self), AString (FullPath s fsName), ADuration d,
                 ADuration (age_Critical rule)])
           else if 0 < age_Warning rule \<and> age_Warning rule \<le> d then
             (False, updateStatus W self WARNING tooOldFmt
                [AString (snapshotType self), AString (FullPath s fsName), ADuration d,
                 ADuration (age_Warning rule)])
           else if age self = 0 \<or> (oldest self \<and> age self < d) \<or> (\<not> oldest self \<and> d < age self)
           then (True, self\<lparr>age := d, snapName := Name s\<rparr>)
           else (True, self)))"

text \<open>The loop \<^verbatim>\<open>for i := range rules\<close> of \<^verbatim>\<open>checkSnapsCreation\<close>, from index \<open>i\<close> on.\<close>

fun creationRulesLoop :: "world \<Rightarrow> SnapCheck \<Rightarrow> string \<Rightarrow> MonitorCreation list
    \<Rightarrow> groupItem list \<Rightarrow> nat \<Rightarrow> SnapCheck" where
  "creationRulesLoop W self fsName [] grouped i = self"
| "creationRulesLoop W self fsName (rule # rules) grouped i =
     (let s = Snapshot (grouped ! i) (oldest self) in
      case applyCreationRule W self rule s fsName of
        (True, self') \<Rightarrow> creationRulesLoop W self' fsName rules grouped (Suc i)
      | (False, self') \<Rightarrow> self')"

definition checkSnapsCreation :: "world \<Rightarrow> SnapCheck \<Rightarrow> string \<Rightarrow> MonitorCreation list
    \<Rightarrow> error option \<times> SnapCheck" where
  "checkSnapsCreation W self fsName rules =
     (case snapshots W self fsName of
        (Inl e, self') \<Rightarrow> (Some e, self')
      | (Inr snaps, self') \<Rightarrow>
          (let prefixes = map age_Prefix rules;
               grouped = groupSnapshots snaps prefixes
           in (None, creationRulesLoop W self' fsName rules grouped 0)))"

fun checkCreationLoop :: "world \<Rightarrow> SnapCheck \<Rightarrow> string list \<Rightarrow> MonitorCreation list
    \<Rightarrow> error option \<times> SnapCheck" where
  "checkCreationLoop W self [] rules = (None, self)"
| "checkCreationLoop W self (dataset # rest) rules =
     (case checkSnapsCreation W self dataset rules of
        (Some e, self') \<Rightarrow> (Some e, self')
      | (None, self') \<Rightarrow> checkCreationLoop W self' rest rules)"

definition checkCreation :: "world \<Rightarrow> SnapCheck \<Rightarrow> JobEnum \<Rightarrow> error option \<times> SnapCheck" where
  "checkCreation W self j =
     (case overrideAgeRules self (rulesByCreation self j) of
        Inl e \<Rightarrow> (Some e, self)
      | Inr rules \<Rightarrow> checkCreationLoop W self (datasetList self) rules)"

section \<open>The run\<close>

definition Run :: "world \<Rightarrow> SnapCheck \<Rightarrow> JobEnum \<Rightarrow> error option \<times> SnapCheck" where
  "Run W self j =
     (case JobName j of
        Inl e \<Rightarrow> (Some e, self)
      | Inr name \<Rightarrow>
          (case jobDatasets W (self\<lparr>job := name\<rparr>) j of
             (Some e, self') \<Rightarrow> (Some e, self')
           | (None, self') \<Rightarrow>
               if counts self' then checkCounts W self' j else checkCreation W self' j))"

definition UpdateStatus :: "world \<Rightarrow> SnapCheck \<Rightarrow> JobEnum \<Rightarrow> error option \<times> SnapCheck" where
  "UpdateStatus W self jobConfig =
     (case Run W self jobConfig of
        (Some e, self') \<Rightarrow> (Some e, self')
      | (None, self') \<Rightarrow>
          if failed self' then (None, self')
          else if counts self' then
            (None, updateStatus W self' OK ''all snapshots count: %d'' [AUint (snapCount self')])
          else
            (None, updateStatus W self' OK ''%s %q: %v''
               [AString (snapshotType self'), AString (snapName self'), ADuration (age self')]))"

text \<open>
  \<^verbatim>\<open>NewSnapCheck\<close>: the zero-valued check. The \<^verbatim>\<open>With...\<close> setters are record updates.
  \<open>maxProcs\<close> bounds the worker pool of the preload (\<^verbatim>\<open>GOMAXPROCS\<close> by default) and has
  no effect on what a run computes.
\<close>

definition NewSnapCheck :: SnapCheck where
  "NewSnapCheck =
     \<lparr>counts = False, oldest = False, job = [], prefix = [], warn = 0, crit = 0,
      countWarn = 0, countCrit = 0, resp = [], age = 0, snapCount = 0, snapName = [],
      failed = False, datasets = Map.empty, orderedDatasets = None, maxProcs = 1\<rparr>"


section \<open>A concrete inventory for evaluating the model\<close>

text \<open>
  \<^verbatim>\<open>time.Duration.String\<close> on a whole, non-negative number of seconds: \<open>0s\<close>, \<open>7s\<close>, \<open>10m0s\<close>,
  \<open>3h0m0s\<close>.
\<close>

definition wholeSeconds :: "int \<Rightarrow> string" where
  "wholeSeconds d =
     (let s = nat (d div Second); m = s div 60; h = m div 60 in
      (if 0 < h then decimal h @ ''h'' else []) @
      (if 0 < m then decimal (m mod 60) @ ''m'' else []) @
      decimal (s mod 60) @ ''s'')"

text \<open>Path segments of a dataset name: the pieces between slashes.\<close>

fun splitPath :: "string \<Rightarrow> string \<Rightarrow> string list" where
  "splitPath [] seg = [seg]"
| "splitPath (c # cs) seg =
     (if c = CHR ''/'' then seg # splitPath cs [] else splitPath cs (seg @ [c]))"

text \<open>
  An inventory given by an association list from dataset to snapshots. Names are plain
  ASCII without quotes or backslashes, which \<open>%q\<close> leaves unescaped; the filter accepts
  every dataset; no dataset is a placeholder.
\<close>

definition demoWorld :: "int \<Rightarrow> (string \<times> FilesystemVersion list) list \<Rightarrow> world" where
  "demoWorld clock inventory =
     \<lparr>escape = (\<lambda>s. s), DurationString = wholeSeconds, now = clock,
      NewDatasetPath = (\<lambda>s. Inr (splitPath s [])),
      ZFSListIter = map (\<lambda>(fs, _). Inr fs) inventory,
      ZFSGetRecursive = (\<lambda>root.
         Inr (map (\<lambda>(fs, _). (fs, \<lparr>Value = ''off'', Source = SourceNone\<rparr>)) inventory)),
      ZFSListFilesystemVersions = (\<lambda>path.
         case find (\<lambda>(fs, _). splitPath fs [] = path) inventory of
           None \<Rightarrow> Inl (Error ''dataset does not exist'')
         | Some (_, snaps) \<Rightarrow> Inr snaps),
      DatasetMapFilterFromConfig = (\<lambda>ff. Inr (\<lambda>path. Inr True))\<rparr>"

section \<open>Vocabulary of the properties\<close>

text \<open>
  \<open>agg_ok grp g\<close>: \<open>g\<close> is the aggregate of the group \<open>grp\<close> (its members in input
  order). The count is the group size; an empty group has neither an oldest nor a latest
  snapshot; otherwise both are members with minimal and maximal creation time, each the
  first member of the group with its creation time.
\<close>

definition agg_ok :: "FilesystemVersion list \<Rightarrow> groupItem \<Rightarrow> bool" where
  "agg_ok grp g \<longleftrightarrow>
     Count g = length grp \<and>
     (grp = [] \<longrightarrow> Oldest g = None \<and> Latest g = None) \<and>
     (grp \<noteq> [] \<longrightarrow>
        (\<exists>old new. Oldest g = Some old \<and> Latest g = Some new \<and>
           old \<in> set grp \<and> new \<in> set grp \<and>
           (\<forall>s\<in>set grp. Creation old \<le> Creation s \<and> Creation s \<le> Creation new) \<and>
           find (\<lambda>s. Creation s = Creation old) grp = Some old \<and>
           find (\<lambda>s. Creation s = Creation new) grp = Some new))"


text \<open>The prefix that \<open>updateStatus\<close> puts before a message: \<open>job "name": \<close>.\<close>

definition jobPrefix :: "world \<Rightarrow> SnapCheck \<Rightarrow> string" where
  "jobPrefix W self = ''job '' @ Quote W (job self) @ '': ''"


text \<open>
  Count mode as the specification words it (section 4.4.1): the outcome of one rule on a
  group of \<open>n\<close> snapshots, the two message texts, and the evaluation of a rule list
  against the group counts, giving the updates emitted and the amount added to the
  run-wide total.
\<close>

datatype count_outcome = SkipSilently | NoSnapshots | OverCritical | OverWarning | Accumulate

definition spec_count_outcome :: "MonitorCount \<Rightarrow> nat \<Rightarrow> count_outcome" where
  "spec_count_outcome rule n =
     (if n = 0 \<and> count_Prefix rule = [] then SkipSilently
      else if n = 0 then NoSnapshots
      else if count_Critical rule \<le> n then OverCritical
      else if 0 < count_Warning rule \<and> count_Warning rule \<le> n then OverWarning
      else Accumulate)"

definition no_snapshots_text :: "world \<Rightarrow> string \<Rightarrow> string \<Rightarrow> string" where
  "no_snapshots_text W fsName p = Quote W fsName @ '' has no snapshots with prefix '' @ Quote W p"

definition count_text :: "world \<Rightarrow> string \<Rightarrow> string \<Rightarrow> string \<Rightarrow> nat \<Rightarrow> nat \<Rightarrow> string" where
  "count_text W jb fsName p n threshold =
     ''job '' @ Quote W jb @ '': '' @ fsName @ '': '' @ Quote W p @ '' snapshots count: '' @
     decimal n @ '' ('' @ decimal threshold @ '')''"

fun spec_count_rules :: "world \<Rightarrow> string \<Rightarrow> string \<Rightarrow> (MonitorCount \<times> nat) list
    \<Rightarrow> update list \<times> nat" where
  "spec_count_rules W jb fsName [] = ([], 0)"
| "spec_count_rules W jb fsName ((rule, n) # rest) =
     (case spec_count_outcome rule n of
        SkipSilently \<Rightarrow> spec_count_rules W jb fsName rest
      | NoSnapshots \<Rightarrow> ([(CRITICAL, no_snapshots_text W fsName (count_Prefix rule))], 0)
      | OverCritical \<Rightarrow>
          ([(CRITICAL, count_text W jb fsName (count_Prefix rule) n (count_Critical rule))], 0)
      | OverWarning \<Rightarrow>
          ([(WARNING, count_text W jb fsName (count_Prefix rule) n (count_Warning rule))], 0)
      | Accumulate \<Rightarrow>
          (let (emitted, total) = spec_count_rules W jb fsName rest in (emitted, n + total)))"


text \<open>
  Vocabulary for comparing two runs. \<open>loaded W self fs\<close> is what \<open>snapshots\<close> returns
  for a dataset: the cached list, or the inventory's answer on a miss. Two checks are the
  same for evaluation when they agree on that and on every field but the cache and the
  response; a step made by both appends the same updates to both responses.
  \<open>config_kept\<close> says that a step changes neither the parameters, nor the dataset
  list, nor what \<open>loaded\<close> returns.
\<close>

definition loaded :: "world \<Rightarrow> SnapCheck \<Rightarrow> string \<Rightarrow> error + FilesystemVersion list" where
  "loaded W self fsName =
     (case datasets self fsName of Some snaps \<Rightarrow> Inr snaps | None \<Rightarrow> zfsListSnapshots W fsName)"



definition config_kept :: "world \<Rightarrow> SnapCheck \<Rightarrow> SnapCheck \<Rightarrow> bool" where
  "config_kept W s s' \<longleftrightarrow>
     loaded W s' = loaded W s \<and>
     counts s' = counts s \<and> oldest s' = oldest s \<and> job s' = job s \<and> prefix s' = prefix s \<and>
     warn s' = warn s \<and> crit s' = crit s \<and> countWarn s' = countWarn s \<and>
     countCrit s' = countCrit s \<and> orderedDatasets s' = orderedDatasets s \<and>
     maxProcs s' = maxProcs s"



text \<open>
  Resolution. \<open>retained W rootPath skip\<close> is the condition of section 4.1 on a descendant
  of the root and its placeholder property. \<open>inventory_names_unique\<close> states that the
  inventory names each filesystem once: the iterator yields no name twice, and a
  property map has one entry per filesystem (it is a Go map).
\<close>

definition retained :: "world \<Rightarrow> string list \<Rightarrow> int \<Rightarrow> string \<times> PropertyValue \<Rightarrow> bool" where
  "retained W rootPath skip fp =
     ((case NewDatasetPath W (fst fp) of
         Inl e \<Rightarrow> False
       | Inr path \<Rightarrow> int (length rootPath) + 1 + skip \<le> int (length path)) \<and>
      \<not> (Value (snd fp) = ''on'' \<and> Source (snd fp) = SourceLocal))"

definition listed_names :: "(error + string) list \<Rightarrow> string list" where
  "listed_names items = concat (map (\<lambda>item. case item of Inl e \<Rightarrow> [] | Inr name \<Rightarrow> [name]) items)"

definition inventory_names_unique :: "world \<Rightarrow> bool" where
  "inventory_names_unique W \<longleftrightarrow>
     distinct (listed_names (ZFSListIter W)) \<and>
     (\<forall>root props. ZFSGetRecursive W root = Inr props \<longrightarrow> distinct (map fst props))"


text \<open>
  Short-circuit vocabulary. A rule passes when its evaluation lets the loop go on: in
  count mode the outcome is a silent skip or an accumulation; in age mode the group has
  no representative under the empty prefix, or the truncated age is below both
  thresholds. \<open>countRulesStop\<close> and \<open>creationRulesStop\<close> give the index of the first
  rule that does not pass, counting from \<open>i\<close>, if there is one.
\<close>

definition count_rule_passes :: "MonitorCount \<Rightarrow> groupItem \<Rightarrow> bool" where
  "count_rule_passes rule g =
     (spec_count_outcome rule (Count g) = SkipSilently \<or>
      spec_count_outcome rule (Count g) = Accumulate)"

fun countRulesStop :: "MonitorCount list \<Rightarrow> groupItem list \<Rightarrow> nat \<Rightarrow> nat option" where
  "countRulesStop [] grouped i = None"
| "countRulesStop (rule # rules) grouped i =
     (if count_rule_passes rule (grouped ! i) then countRulesStop rules grouped (Suc i)
      else Some i)"

definition age_rule_passes :: "world \<Rightarrow> MonitorCreation \<Rightarrow> FilesystemVersion option \<Rightarrow> bool" where
  "age_rule_passes W rule snap =
     (case snap of
        None \<Rightarrow> age_Prefix rule = []
      | Some s \<Rightarrow>
          (let d = Truncate (Since (now W) (Creation s)) Second in
           \<not> age_Critical rule \<le> d \<and> \<not> (0 < age_Warning rule \<and> age_Warning rule \<le> d)))"

fun creationRulesStop :: "world \<Rightarrow> bool \<Rightarrow> MonitorCreation list \<Rightarrow> groupItem list \<Rightarrow> nat
    \<Rightarrow> nat option" where
  "creationRulesStop W old [] grouped i = None"
| "creationRulesStop W old (rule # rules) grouped i =
     (if age_rule_passes W rule (Snapshot (grouped ! i) old)
      then creationRulesStop W old rules grouped (Suc i)
      else Some i)"


section \<open>Example data\<close>

definition snapDaily :: FilesystemVersion where
  "snapDaily = \<lparr>Name = ''zfs-auto-daily-1'', Creation = 20\<rparr>"

definition snapHourly :: FilesystemVersion where
  "snapHourly = \<lparr>Name = ''zfs-auto-hourly-1'', Creation = 10\<rparr>"

definition snapManual :: FilesystemVersion where
  "snapManual = \<lparr>Name = ''manual'', Creation = 10\<rparr>"

text \<open>Scenario 1 of the specification: three snapshots, a count rule that passes.\<close>

definition demoCountJob :: JobEnum where
  "demoCountJob = SnapJob ''snap'' []
     \<lparr>cfg_Latest = [], cfg_Oldest = [],
      cfg_Count = [\<lparr>count_Prefix = [], count_Warning = 0, count_Critical = 100\<rparr>]\<rparr>"

definition demoThree :: "FilesystemVersion list" where
  "demoThree = [\<lparr>Name = ''s1'', Creation = 0\<rparr>, \<lparr>Name = ''s2'', Creation = 0\<rparr>,
                \<lparr>Name = ''s3'', Creation = 0\<rparr>]"

definition demoCountWorld :: world where
  "demoCountWorld = demoWorld 0 [(''tank/a'', demoThree)]"

definition demoCheck :: SnapCheck where
  "demoCheck = NewSnapCheck\<lparr>counts := True\<rparr>"

text \<open>The state in which \<open>Run\<close> leaves \<open>demoCheck\<close> on scenario 1.\<close>

definition demoDone :: SnapCheck where
  "demoDone = NewSnapCheck\<lparr>counts := True, job := ''snap'', snapCount := 3,
     orderedDatasets := Some [''tank/a''],
     datasets := [''tank/a'' \<mapsto> demoThree]\<rparr>"

definition demoGroup :: groupItem where
  "demoGroup = groupSnapshots [snapDaily, snapHourly, snapManual] [''zfs-auto-''] ! 0"

definition demoCountRule :: MonitorCount where
  "demoCountRule = \<lparr>count_Prefix = ''zfs-auto-'', count_Warning = 0, count_Critical = 2\<rparr>"

definition demoMissingCountRule :: MonitorCount where
  "demoMissingCountRule = \<lparr>count_Prefix = ''hourly-'', count_Warning = 0, count_Critical = 1\<rparr>"

definition demoAgeRule :: MonitorCreation where
  "demoAgeRule = \<lparr>age_Prefix = [], age_Warning = 2 * Second, age_Critical = 3600 * Second\<rparr>"

definition demoMissingAgeRule :: MonitorCreation where
  "demoMissingAgeRule = \<lparr>age_Prefix = ''hourly-'', age_Warning = 0, age_Critical = 3600 * Second\<rparr>"

definition demoOldSnap :: FilesystemVersion where
  "demoOldSnap = \<lparr>Name = ''s0'', Creation = - 5 * Second\<rparr>"

text \<open>
  Scenario 3 of the specification: snapshots \<open>daily-1\<close> and \<open>daily-2\<close>, a count rule for
  the prefix \<open>hourly-\<close>.
\<close>

definition missingPrefixJob :: JobEnum where
  "missingPrefixJob = SnapJob ''snap'' []
     \<lparr>cfg_Latest = [], cfg_Oldest = [], cfg_Count = [demoMissingCountRule]\<rparr>"

definition missingPrefixWorld :: world where
  "missingPrefixWorld = demoWorld 0
     [(''tank/a'', [\<lparr>Name = ''daily-1'', Creation = 0\<rparr>, \<lparr>Name = ''daily-2'', Creation = 0\<rparr>])]"

text \<open>
  Three datasets with one snapshot each, read at clock 100 s: the snapshots are 5 s,
  half a second and 7 s old. One age rule with the empty prefix and a critical
  threshold of one hour.
\<close>

definition freshSnapshotJob :: JobEnum where
  "freshSnapshotJob = SnapJob ''snap'' []
     \<lparr>cfg_Latest = [\<lparr>age_Prefix = [], age_Warning = 0, age_Critical = 3600 * Second\<rparr>],
      cfg_Oldest = [], cfg_Count = []\<rparr>"

definition freshSnapshotWorld :: world where
  "freshSnapshotWorld = demoWorld (100 * Second)
     [(''tank/a'', [\<lparr>Name = ''s1'', Creation = 95 * Second\<rparr>]),
      (''tank/b'', [\<lparr>Name = ''s2'', Creation = 100 * Second - 500000000\<rparr>]),
      (''tank/c'', [\<lparr>Name = ''s3'', Creation = 93 * Second\<rparr>])]"



text \<open>
  A pool whose datasets the inventory lists out of order; \<open>tank/b\<close> is a placeholder
  (property value \<open>on\<close>, source \<open>local\<close>).
\<close>

definition rootProps :: "(string \<times> PropertyValue) list" where
  "rootProps =
     [(''tank/b'', \<lparr>Value = ''on'', Source = SourceLocal\<rparr>),
      (''tank/a/x'', \<lparr>Value = ''off'', Source = SourceNone\<rparr>),
      (''tank'', \<lparr>Value = ''off'', Source = SourceNone\<rparr>),
      (''tank/a'', \<lparr>Value = ''on'', Source = SourceInherited\<rparr>)]"

definition rootWorld :: world where
  "rootWorld = (demoWorld 0 [(''tank/b'', []), (''tank/a'', [])])
     \<lparr>ZFSGetRecursive := (\<lambda>root. Inr rootProps)\<rparr>"

definition noMonitor :: MonitorSnapshots where
  "noMonitor = \<lparr>cfg_Latest = [], cfg_Oldest = [], cfg_Count = []\<rparr>"

section \<open>Properties of the grouping\<close>

lemma fm_hit:
  "matches p name \<Longrightarrow> first_match_at (p # ps) k name \<longleftrightarrow> k = 0"
  by (cases k) (auto simp: first_match_at_def)

lemma fm_miss_0: "\<not> matches p name \<Longrightarrow> \<not> first_match_at (p # ps) 0 name"
  by (simp add: first_match_at_def)

lemma fm_miss_Suc:
  "\<not> matches p name \<Longrightarrow>
   first_match_at (p # ps) (Suc k) name \<longleftrightarrow> first_match_at ps k name"
proof -
  assume m: "\<not> matches p name"
  have "(\<forall>j<Suc k. \<not> matches ((p # ps) ! j) name) \<longleftrightarrow>
        (\<forall>j<k. \<not> matches (ps ! j) name)"
  proof
    assume a: "\<forall>j<Suc k. \<not> matches ((p # ps) ! j) name"
    show "\<forall>j<k. \<not> matches (ps ! j) name"
    proof (intro allI impI)
      fix j assume "j < k"
      then have "Suc j < Suc k" by simp
      with a have "\<not> matches ((p # ps) ! Suc j) name" by blast
      then show "\<not> matches (ps ! j) name" by simp
    qed
  next
    assume a: "\<forall>j<k. \<not> matches (ps ! j) name"
    show "\<forall>j<Suc k. \<not> matches ((p # ps) ! j) name"
    proof (intro allI impI)
      fix j assume jk: "j < Suc k"
      show "\<not> matches ((p # ps) ! j) name"
      proof (cases j)
        case 0 then show ?thesis using m by simp
      next
        case (Suc j')
        then have "j' < k" using jk by simp
        with a Suc show ?thesis by simp
      qed
    qed
  qed
  then show ?thesis by (simp add: first_match_at_def)
qed

lemma groupOne_nth:
  "j + length ps \<le> length grouped \<Longrightarrow> i < length grouped \<Longrightarrow>
   groupOne s ps j grouped ! i =
     (if j \<le> i \<and> first_match_at ps (i - j) (Name s)
      then addSnapshot (grouped ! i) s else grouped ! i)"
proof (induction ps arbitrary: j)
  case Nil
  then show ?case by (simp add: first_match_at_def)
next
  case (Cons p ps)
  show ?case
  proof (cases "matches p (Name s)")
    case True
    then have step: "groupOne s (p # ps) j grouped = grouped[j := addSnapshot (grouped ! j) s]"
      by (simp add: matches_def)
    have "j < length grouped" using Cons.prems by simp
    then show ?thesis
      unfolding step using True Cons.prems(2)
      by (cases "j = i") (auto simp: fm_hit nth_list_update)
  next
    case False
    then have step: "groupOne s (p # ps) j grouped = groupOne s ps (Suc j) grouped"
      by (simp add: matches_def)
    have ih: "groupOne s ps (Suc j) grouped ! i =
        (if Suc j \<le> i \<and> first_match_at ps (i - Suc j) (Name s)
         then addSnapshot (grouped ! i) s else grouped ! i)"
      using Cons.IH [of "Suc j"] Cons.prems by simp
    show ?thesis
    proof (cases "Suc j \<le> i")
      case True
      then have "i - j = Suc (i - Suc j)" by simp
      then show ?thesis
        unfolding step ih using True False by (simp add: fm_miss_Suc)
    next
      case nle: False
      show ?thesis
      proof (cases "j = i")
        case True
        then show ?thesis unfolding step ih using False by (simp add: fm_miss_0)
      next
        case False
        then show ?thesis unfolding step ih using nle by simp
      qed
    qed
  qed
qed

lemma groupSnapshots_snoc:
  "groupSnapshots (snaps @ [s]) prefixes =
     groupOne s prefixes 0 (groupSnapshots snaps prefixes)"
  by (simp add: groupSnapshots_def)

lemma length_groupOne: "length (groupOne s ps j grouped) = length grouped"
  by (induction ps arbitrary: j) auto

lemma length_groupSnapshots_aux:
  "length (foldl (\<lambda>grouped s. groupOne s prefixes 0 grouped) init snaps) = length init"
  by (induction snaps arbitrary: init) (auto simp: length_groupOne)

lemma length_groupSnapshots: "length (groupSnapshots snaps prefixes) = length prefixes"
  by (simp add: groupSnapshots_def length_groupSnapshots_aux)

lemma groupSnapshots_nth:
  "i < length prefixes \<Longrightarrow>
   groupSnapshots snaps prefixes ! i =
     foldl addSnapshot emptyGroup (group_members snaps prefixes i)"
proof (induction snaps rule: rev_induct)
  case Nil
  then show ?case by (simp add: groupSnapshots_def group_members_def)
next
  case (snoc s snaps)
  have "groupOne s prefixes 0 (groupSnapshots snaps prefixes) ! i =
      (if first_match_at prefixes i (Name s)
       then addSnapshot (groupSnapshots snaps prefixes ! i) s
       else groupSnapshots snaps prefixes ! i)"
    using groupOne_nth [of 0 prefixes "groupSnapshots snaps prefixes" i s] snoc.prems
    by (simp add: length_groupSnapshots)
  then show ?case
    using snoc by (simp add: groupSnapshots_snoc group_members_def)
qed

lemma find_append_if:
  "find P (xs @ ys) = (case find P xs of None \<Rightarrow> find P ys | Some x \<Rightarrow> Some x)"
  by (induction xs) auto

lemma find_None_all: "\<forall>x\<in>set xs. \<not> P x \<Longrightarrow> find P xs = None"
  by (simp add: find_None_iff)

lemma agg_ok_empty: "agg_ok [] emptyGroup"
  by (simp add: agg_ok_def emptyGroup_def)

lemma agg_ok_first: "agg_ok [] g \<Longrightarrow> agg_ok [x] (addSnapshot g x)"
  by (simp add: agg_ok_def addSnapshot_def)

lemma agg_ok_step:
  assumes ok: "agg_ok grp g"
  shows "agg_ok (grp @ [x]) (addSnapshot g x)"
proof (cases "grp = []")
  case True
  then show ?thesis using agg_ok_first ok by simp
next
  case False
  from ok False obtain old new where
    o: "Oldest g = Some old" and n: "Latest g = Some new" and
    om: "old \<in> set grp" and nm: "new \<in> set grp" and
    bnd: "\<forall>s\<in>set grp. Creation old \<le> Creation s \<and> Creation s \<le> Creation new" and
    fo: "find (\<lambda>s. Creation s = Creation old) grp = Some old" and
    fn: "find (\<lambda>s. Creation s = Creation new) grp = Some new"
    unfolding agg_ok_def by blast
  have cnt: "Count (addSnapshot g x) = length (grp @ [x])"
    using ok by (simp add: agg_ok_def addSnapshot_def)
  define old' where "old' = (if Creation x < Creation old then x else old)"
  define new' where "new' = (if Creation new < Creation x then x else new)"
  have o': "Oldest (addSnapshot g x) = Some old'"
    by (simp add: addSnapshot_def o old'_def)
  have n': "Latest (addSnapshot g x) = Some new'"
    by (simp add: addSnapshot_def n new'_def)
  have om': "old' \<in> set (grp @ [x])" using om by (simp add: old'_def)
  have nm': "new' \<in> set (grp @ [x])" using nm by (simp add: new'_def)
  have bnd': "\<forall>s\<in>set (grp @ [x]). Creation old' \<le> Creation s \<and> Creation s \<le> Creation new'"
    using bnd by (auto simp: old'_def new'_def)
  have fo': "find (\<lambda>s. Creation s = Creation old') (grp @ [x]) = Some old'"
  proof (cases "Creation x < Creation old")
    case True
    then have "\<forall>s\<in>set grp. \<not> Creation s = Creation x" using bnd by auto
    then have "find (\<lambda>s. Creation s = Creation x) grp = None" by (rule find_None_all)
    then show ?thesis using True by (simp add: old'_def find_append_if)
  next
    case False
    then show ?thesis using fo by (simp add: old'_def find_append_if)
  qed
  have fn': "find (\<lambda>s. Creation s = Creation new') (grp @ [x]) = Some new'"
  proof (cases "Creation new < Creation x")
    case True
    then have "\<forall>s\<in>set grp. \<not> Creation s = Creation x" using bnd by auto
    then have "find (\<lambda>s. Creation s = Creation x) grp = None" by (rule find_None_all)
    then show ?thesis using True by (simp add: new'_def find_append_if)
  next
    case False
    then show ?thesis using fn by (simp add: new'_def find_append_if)
  qed
  show ?thesis
    unfolding agg_ok_def using cnt o' n' om' nm' bnd' fo' fn' by blast
qed

lemma agg_ok_foldl: "agg_ok grp (foldl addSnapshot emptyGroup grp)"
  by (induction grp rule: rev_induct) (simp_all add: agg_ok_empty agg_ok_step)

text \<open>
  Claim C3. \<open>groupSnapshots\<close> returns one aggregate per prefix. Aggregate \<open>i\<close> counts
  the snaps whose first matching prefix has index \<open>i\<close>; its count is zero exactly
  when it has no oldest snapshot, exactly when it has no latest snapshot; otherwise the
  oldest and the latest are members of the group with minimal and maximal creation time,
  and among members sharing that creation time each is the first in input order.
\<close>

theorem groupSnapshots_correct:
  "length (groupSnapshots snaps prefixes) = length prefixes \<and>
   (\<forall>i<length prefixes.
      agg_ok (group_members snaps prefixes i) (groupSnapshots snaps prefixes ! i) \<and>
      (Count (groupSnapshots snaps prefixes ! i) = 0
         \<longleftrightarrow> Oldest (groupSnapshots snaps prefixes ! i) = None) \<and>
      (Oldest (groupSnapshots snaps prefixes ! i) = None
         \<longleftrightarrow> Latest (groupSnapshots snaps prefixes ! i) = None))"
proof (intro conjI allI impI)
  show "length (groupSnapshots snaps prefixes) = length prefixes"
    by (rule length_groupSnapshots)
next
  fix i assume i: "i < length prefixes"
  let ?g = "groupSnapshots snaps prefixes ! i"
  let ?grp = "group_members snaps prefixes i"
  show ok: "agg_ok ?grp ?g"
    using i by (simp add: groupSnapshots_nth agg_ok_foldl)
  show "Count ?g = 0 \<longleftrightarrow> Oldest ?g = None"
    using ok unfolding agg_ok_def by (cases "?grp = []") auto
  show "Oldest ?g = None \<longleftrightarrow> Latest ?g = None"
    using ok unfolding agg_ok_def by (cases "?grp = []") auto
qed

theorem groupSnapshots_correct_witness:
  "(0::nat) < length [''zfs-auto-'', ''zfs-auto-hourly-''] \<and>
   group_members [snapDaily, snapHourly, snapManual] [''zfs-auto-'', ''zfs-auto-hourly-''] 0
     = [snapDaily, snapHourly] \<and>
   agg_ok [snapDaily, snapHourly]
     (groupSnapshots [snapDaily, snapHourly, snapManual]
        [''zfs-auto-'', ''zfs-auto-hourly-''] ! 0) \<and>
   Oldest (groupSnapshots [snapDaily, snapHourly, snapManual]
        [''zfs-auto-'', ''zfs-auto-hourly-''] ! 0) = Some snapHourly"
proof -
  have len: "(0::nat) < length [''zfs-auto-'', ''zfs-auto-hourly-'']" by simp
  have mem: "group_members [snapDaily, snapHourly, snapManual]
      [''zfs-auto-'', ''zfs-auto-hourly-''] 0 = [snapDaily, snapHourly]"
    by (simp add: group_members_def first_match_at_def matches_def HasPrefix_def
        snapDaily_def snapHourly_def snapManual_def)
  have "agg_ok (group_members [snapDaily, snapHourly, snapManual]
            [''zfs-auto-'', ''zfs-auto-hourly-''] 0)
          (groupSnapshots [snapDaily, snapHourly, snapManual]
            [''zfs-auto-'', ''zfs-auto-hourly-''] ! 0)"
    using groupSnapshots_correct [of "[snapDaily, snapHourly, snapManual]"
        "[''zfs-auto-'', ''zfs-auto-hourly-'']"] len by blast
  then have ok: "agg_ok [snapDaily, snapHourly]
          (groupSnapshots [snapDaily, snapHourly, snapManual]
            [''zfs-auto-'', ''zfs-auto-hourly-''] ! 0)"
    unfolding mem .
  have "Oldest (groupSnapshots [snapDaily, snapHourly, snapManual]
        [''zfs-auto-'', ''zfs-auto-hourly-''] ! 0) = Some snapHourly"
    by (simp add: groupSnapshots_def emptyGroup_def addSnapshot_def HasPrefix_def
        snapDaily_def snapHourly_def snapManual_def)
  with len mem ok show ?thesis by blast
qed

section \<open>Messages handed to the response\<close>

lemma Sprintf_job: "Sprintf F ''job %q: '' [AString n] = ''job '' @ Quote F n @ '': ''"
  by simp

lemma Sprintf_job_s:
  "Sprintf F ''job %q: %s'' [AString n, AString fm] = ''job '' @ Quote F n @ '': '' @ fm"
  by simp

lemma Sprintf_noSnapshots:
  "Sprintf F noSnapshotsMsg [AString fs, AString p] =
     Quote F fs @ '' has no snapshots with prefix '' @ Quote F p"
  by (simp add: noSnapshotsMsg_def)

lemma Sprintf_countMsg:
  "Sprintf F countMsg [AString fs, AString p, AUint n, AUint t] =
     fs @ '': '' @ Quote F p @ '' snapshots count: '' @ decimal n @ '' ('' @ decimal t @ '')''"
  by (simp add: countMsg_def)

lemma Sprintf_tooOld:
  "Sprintf F tooOldFmt [AString ty, AString full, ADuration d, ADuration t] =
     ty @ '' '' @ Quote F full @ '' too old: '' @ Quote F (DurationString F d) @ '' > ''
       @ Quote F (DurationString F t)"
  by (simp add: tooOldFmt_def)

lemma Sprintf_allCount:
  "Sprintf F ''all snapshots count: %d'' [AUint n] = ''all snapshots count: '' @ decimal n"
  by simp

lemma Sprintf_summary:
  "Sprintf F ''%s %q: %v'' [AString ty, AString nm, ADuration d] =
     ty @ '' '' @ Quote F nm @ '': '' @ DurationString F d"
  by simp

lemma HasPrefix_append: "HasPrefix (p @ rest) p"
  by (simp add: HasPrefix_def)

lemma updateStatus_eq:
  "updateStatus W self code fm a =
     self\<lparr>failed := failed self \<or> code \<noteq> OK,
          resp := resp self @ [(code, jobPrefix W self @
                   (if a = [] then fm else Sprintf W fm a))]\<rparr>"
  by (simp add: updateStatus_def updateResponse_def respUpdateStatus_def Let_def jobPrefix_def)

lemma Quote_no_job: "\<not> HasPrefix (Quote W s @ rest) ''job ''"
  by (simp add: HasPrefix_def Quote_def)

lemma OK_neq [simp]: "WARNING \<noteq> OK" "CRITICAL \<noteq> OK" "WARNING \<noteq> CRITICAL"
  by (simp_all add: OK_def WARNING_def CRITICAL_def)

lemma count_threshold_message:
  assumes "fst (applyCountRule W self rule fsName g) = False" and "Count g \<noteq> 0"
  shows "\<exists>c m. resp (snd (applyCountRule W self rule fsName g)) = resp self @ [(c, m)] \<and>
           (c = WARNING \<or> c = CRITICAL) \<and> HasPrefix m (jobPrefix W self)"
  using assms
  by (auto simp: applyCountRule_def updateStatus_eq HasPrefix_append split: if_splits)

lemma count_missing_message:
  assumes "Count g = 0" and "count_Prefix rule \<noteq> []"
  shows "\<exists>m. resp (snd (applyCountRule W self rule fsName g)) = resp self @ [(CRITICAL, m)] \<and>
           HasPrefix m (Quote W fsName) \<and> \<not> HasPrefix m ''job ''"
  using assms
  by (simp add: applyCountRule_def respUpdateStatus_def Sprintf_noSnapshots
      HasPrefix_append Quote_no_job)

lemma age_threshold_message:
  assumes "fst (applyCreationRule W self arule (Some s) fsName) = False"
  shows "\<exists>c m. resp (snd (applyCreationRule W self arule (Some s) fsName)) = resp self @ [(c, m)] \<and>
           (c = WARNING \<or> c = CRITICAL) \<and> HasPrefix m (jobPrefix W self)"
  using assms
  by (auto simp: applyCreationRule_def Let_def updateStatus_eq HasPrefix_append
      split: if_splits)

lemma age_missing_message:
  assumes "age_Prefix arule \<noteq> []"
  shows "\<exists>m. resp (snd (applyCreationRule W self arule None fsName)) = resp self @ [(CRITICAL, m)] \<and>
           HasPrefix m (Quote W fsName) \<and> \<not> HasPrefix m ''job ''"
  using assms
  by (simp add: applyCreationRule_def respUpdateStatus_def Sprintf_noSnapshots
      HasPrefix_append Quote_no_job)

lemma summary_message:
  assumes "Run W self j = (None, s1)" and "\<not> failed s1"
  shows "\<exists>m. resp (snd (UpdateStatus W self j)) = resp s1 @ [(OK, m)] \<and>
           HasPrefix m (jobPrefix W s1)"
  using assms
  by (auto simp: UpdateStatus_def updateStatus_eq HasPrefix_append)

text \<open>
  Claim C10. A threshold verdict (WARNING or CRITICAL, in count mode and in age mode) and
  the final OK summary are handed to the response with the prefix \<open>job "name": \<close>.
  The CRITICAL message for a group without snapshots under a non-empty prefix goes to
  the response directly: it starts with the quoted dataset name and has no job prefix.
\<close>

theorem status_message_prefixes:
  "(fst (applyCountRule W self rule fsName g) = False \<longrightarrow> Count g \<noteq> 0 \<longrightarrow>
      (\<exists>c m. resp (snd (applyCountRule W self rule fsName g)) = resp self @ [(c, m)] \<and>
         (c = WARNING \<or> c = CRITICAL) \<and> HasPrefix m (jobPrefix W self))) \<and>
   (fst (applyCreationRule W self arule (Some s) fsName) = False \<longrightarrow>
      (\<exists>c m. resp (snd (applyCreationRule W self arule (Some s) fsName)) = resp self @ [(c, m)] \<and>
         (c = WARNING \<or> c = CRITICAL) \<and> HasPrefix m (jobPrefix W self))) \<and>
   (Run W self j = (None, s1) \<longrightarrow> \<not> failed s1 \<longrightarrow>
      (\<exists>m. resp (snd (UpdateStatus W self j)) = resp s1 @ [(OK, m)] \<and>
         HasPrefix m (jobPrefix W s1))) \<and>
   (Count g0 = 0 \<longrightarrow> count_Prefix rule0 \<noteq> [] \<longrightarrow>
      (\<exists>m. resp (snd (applyCountRule W self rule0 fsName g0)) = resp self @ [(CRITICAL, m)] \<and>
         HasPrefix m (Quote W fsName) \<and> \<not> HasPrefix m ''job '')) \<and>
   (age_Prefix arule0 \<noteq> [] \<longrightarrow>
      (\<exists>m. resp (snd (applyCreationRule W self arule0 None fsName)) = resp self @ [(CRITICAL, m)] \<and>
         HasPrefix m (Quote W fsName) \<and> \<not> HasPrefix m ''job ''))"
  using count_threshold_message [of W self rule fsName g]
    age_threshold_message [of W self arule s fsName]
    summary_message [of W self j s1]
    count_missing_message [of g0 rule0 W self fsName]
    age_missing_message [of arule0 W self fsName]
  by blast

lemma demo_Run:
  "Run demoCountWorld demoCheck demoCountJob = (None, demoDone)"
  by (simp add: Run_def demoCountJob_def demoCountWorld_def demoWorld_def NewSnapCheck_def
      demoCheck_def demoDone_def demoThree_def
      jobDatasets_def datasetsFromFilter_def preloadSnapshots_def datasetList_def
      zfsListSnapshots_def checkCounts_def overrideCountRules_def checkSnapsCounts_def
      snapshots_def groupSnapshots_def emptyGroup_def addSnapshot_def applyCountRule_def
      Let_def)

theorem status_message_prefixes_witness:
  "fst (applyCountRule demoCountWorld demoCheck demoCountRule ''tank/a'' demoGroup) = False \<and>
   Count demoGroup \<noteq> 0 \<and>
   fst (applyCreationRule demoCountWorld demoCheck demoAgeRule (Some demoOldSnap) ''tank/a'') = False \<and>
   Run demoCountWorld demoCheck demoCountJob = (None, demoDone) \<and> \<not> failed demoDone \<and>
   Count emptyGroup = 0 \<and> count_Prefix demoMissingCountRule \<noteq> [] \<and>
   age_Prefix demoMissingAgeRule \<noteq> [] \<and>
   (\<exists>c m. resp (snd (applyCountRule demoCountWorld demoCheck demoCountRule ''tank/a'' demoGroup))
            = resp demoCheck @ [(c, m)] \<and>
         (c = WARNING \<or> c = CRITICAL) \<and> HasPrefix m (jobPrefix demoCountWorld demoCheck)) \<and>
   (\<exists>c m. resp (snd (applyCreationRule demoCountWorld demoCheck demoAgeRule (Some demoOldSnap) ''tank/a''))
            = resp demoCheck @ [(c, m)] \<and>
         (c = WARNING \<or> c = CRITICAL) \<and> HasPrefix m (jobPrefix demoCountWorld demoCheck)) \<and>
   (\<exists>m. resp (snd (UpdateStatus demoCountWorld demoCheck demoCountJob)) = resp demoDone @ [(OK, m)] \<and>
         HasPrefix m (jobPrefix demoCountWorld demoDone)) \<and>
   (\<exists>m. resp (snd (applyCountRule demoCountWorld demoCheck demoMissingCountRule ''tank/a'' emptyGroup))
            = resp demoCheck @ [(CRITICAL, m)] \<and>
         HasPrefix m (Quote demoCountWorld ''tank/a'') \<and> \<not> HasPrefix m ''job '') \<and>
   (\<exists>m. resp (snd (applyCreationRule demoCountWorld demoCheck demoMissingAgeRule None ''tank/a''))
            = resp demoCheck @ [(CRITICAL, m)] \<and>
         HasPrefix m (Quote demoCountWorld ''tank/a'') \<and> \<not> HasPrefix m ''job '')"
proof -
  have cnt: "Count demoGroup = 2"
    by (simp add: demoGroup_def groupSnapshots_def emptyGroup_def addSnapshot_def HasPrefix_def
        snapDaily_def snapHourly_def snapManual_def)
  have h1: "fst (applyCountRule demoCountWorld demoCheck demoCountRule ''tank/a'' demoGroup) = False"
    by (simp add: applyCountRule_def cnt demoCountRule_def)
  have h2: "Count demoGroup \<noteq> 0" by (simp add: cnt)
  have h3: "fst (applyCreationRule demoCountWorld demoCheck demoAgeRule (Some demoOldSnap) ''tank/a'') = False"
    by (simp add: applyCreationRule_def demoAgeRule_def demoOldSnap_def demoCountWorld_def
        demoWorld_def Since_def Truncate_def go_rem_def Second_def minDuration_def
        maxDuration_def Let_def)
  have h4: "\<not> failed demoDone" by (simp add: demoDone_def NewSnapCheck_def)
  have h5: "Count emptyGroup = 0" by (simp add: emptyGroup_def)
  have h6: "count_Prefix demoMissingCountRule \<noteq> []" by (simp add: demoMissingCountRule_def)
  have h7: "age_Prefix demoMissingAgeRule \<noteq> []" by (simp add: demoMissingAgeRule_def)
  show ?thesis
    using status_message_prefixes [of demoCountWorld demoCheck demoCountRule "''tank/a''"
        demoGroup demoAgeRule demoOldSnap demoCountJob demoDone emptyGroup
        demoMissingCountRule demoMissingAgeRule]
      h1 h2 h3 demo_Run h4 h5 h6 h7
    by blast
qed

section \<open>Count mode\<close>

lemma applyCountRule_cases:
  "applyCountRule W self rule fsName g =
     (case spec_count_outcome rule (Count g) of
        SkipSilently \<Rightarrow> (True, self)
      | NoSnapshots \<Rightarrow>
          (False, self\<lparr>resp := resp self @
             [(CRITICAL, no_snapshots_text W fsName (count_Prefix rule))]\<rparr>)
      | OverCritical \<Rightarrow>
          (False, self\<lparr>failed := True, resp := resp self @
             [(CRITICAL, count_text W (job self) fsName (count_Prefix rule) (Count g)
                 (count_Critical rule))]\<rparr>)
      | OverWarning \<Rightarrow>
          (False, self\<lparr>failed := True, resp := resp self @
             [(WARNING, count_text W (job self) fsName (count_Prefix rule) (Count g)
                 (count_Warning rule))]\<rparr>)
      | Accumulate \<Rightarrow> (True, self\<lparr>snapCount := snapCount self + Count g\<rparr>))"
  by (simp add: applyCountRule_def spec_count_outcome_def updateStatus_eq jobPrefix_def
      Sprintf_countMsg Sprintf_noSnapshots respUpdateStatus_def no_snapshots_text_def
      count_text_def)

lemma countRulesLoop_spec:
  "i + length rules \<le> length grouped \<Longrightarrow>
   resp (countRulesLoop W self fsName rules grouped i) =
     resp self @ fst (spec_count_rules W (job self) fsName
                        (zip rules (map Count (drop i grouped)))) \<and>
   snapCount (countRulesLoop W self fsName rules grouped i) =
     snapCount self + snd (spec_count_rules W (job self) fsName
                        (zip rules (map Count (drop i grouped))))"
proof (induction rules arbitrary: self i)
  case Nil
  then show ?case by simp
next
  case (Cons rule rules)
  from Cons.prems have i: "i < length grouped" by simp
  then have dr: "drop i grouped = grouped ! i # drop (Suc i) grouped"
    by (simp add: Cons_nth_drop_Suc)
  have ih: "resp (countRulesLoop W s fsName rules grouped (Suc i)) =
     resp s @ fst (spec_count_rules W (job s) fsName
                        (zip rules (map Count (drop (Suc i) grouped)))) \<and>
   snapCount (countRulesLoop W s fsName rules grouped (Suc i)) =
     snapCount s + snd (spec_count_rules W (job s) fsName
                        (zip rules (map Count (drop (Suc i) grouped))))" for s
    using Cons.IH [of "Suc i" s] Cons.prems by simp
  show ?case
  proof (cases "spec_count_outcome rule (Count (grouped ! i))")
    case SkipSilently
    then show ?thesis using ih [of self] by (simp add: dr applyCountRule_cases)
  next
    case NoSnapshots
    then show ?thesis by (simp add: dr applyCountRule_cases)
  next
    case OverCritical
    then show ?thesis by (simp add: dr applyCountRule_cases)
  next
    case OverWarning
    then show ?thesis by (simp add: dr applyCountRule_cases)
  next
    case Accumulate
    then show ?thesis
      using ih [of "self\<lparr>snapCount := snapCount self + Count (grouped ! i)\<rparr>"]
      by (simp add: dr applyCountRule_cases split: prod.split)
  qed
qed

lemma snapshots_frame:
  "snapshots W self fsName = (r, self0) \<Longrightarrow>
   resp self0 = resp self \<and> snapCount self0 = snapCount self \<and> job self0 = job self"
  by (auto simp: snapshots_def split: option.splits sum.splits)

text \<open>
  Claim C4. In count mode the rules of a dataset are examined in order against the group
  counts: an empty group under the empty prefix is skipped silently; an empty group
  under another prefix emits the CRITICAL "has no snapshots with prefix" verdict and
  stops; a count at or above the critical threshold emits CRITICAL with count and
  threshold and stops; a count at or above a positive warning threshold emits WARNING
  and stops; otherwise the count is added to the run-wide total and the next rule is
  examined.
\<close>

theorem count_mode_rules:
  assumes "snapshots W self fsName = (Inr snaps, self0)"
  shows "\<exists>s'. checkSnapsCounts W self fsName rules = (None, s') \<and>
      resp s' = resp self @ fst (spec_count_rules W (job self) fsName
          (zip rules (map Count (groupSnapshots snaps (map count_Prefix rules))))) \<and>
      snapCount s' = snapCount self + snd (spec_count_rules W (job self) fsName
          (zip rules (map Count (groupSnapshots snaps (map count_Prefix rules)))))"
proof -
  let ?grouped = "groupSnapshots snaps (map count_Prefix rules)"
  have len: "0 + length rules \<le> length ?grouped"
    by (simp add: length_groupSnapshots)
  have eq: "checkSnapsCounts W self fsName rules =
      (None, countRulesLoop W self0 fsName rules ?grouped 0)"
    using assms by (simp add: checkSnapsCounts_def Let_def)
  show ?thesis
    using countRulesLoop_spec [OF len, of W self0 fsName] snapshots_frame [OF assms] eq
    by simp
qed

theorem count_mode_rules_witness:
  "snapshots demoCountWorld demoDone ''tank/a'' = (Inr demoThree, demoDone) \<and>
   (\<exists>s'. checkSnapsCounts demoCountWorld demoDone ''tank/a'' [demoCountRule] = (None, s') \<and>
      resp s' = resp demoDone @ fst (spec_count_rules demoCountWorld (job demoDone) ''tank/a''
          (zip [demoCountRule] (map Count (groupSnapshots demoThree (map count_Prefix [demoCountRule]))))) \<and>
      snapCount s' = snapCount demoDone + snd (spec_count_rules demoCountWorld (job demoDone) ''tank/a''
          (zip [demoCountRule] (map Count (groupSnapshots demoThree (map count_Prefix [demoCountRule]))))))"
proof -
  have h: "snapshots demoCountWorld demoDone ''tank/a'' = (Inr demoThree, demoDone)"
    by (simp add: snapshots_def demoDone_def)
  show ?thesis
    using count_mode_rules [OF h, of "[demoCountRule]"] h by blast
qed

section \<open>Where the accumulated verdict state departs from the specification\<close>

lemmas run_defs = Run_def UpdateStatus_def demoWorld_def NewSnapCheck_def
      jobDatasets_def datasetsFromFilter_def preloadSnapshots_def datasetList_def
      zfsListSnapshots_def checkCounts_def overrideCountRules_def checkSnapsCounts_def
      checkCreation_def overrideAgeRules_def rulesByCreation_def checkSnapsCreation_def
      snapshots_def groupSnapshots_def emptyGroup_def addSnapshot_def Snapshot_def
      HasPrefix_def Let_def

text \<open>
  Claim C1 says that \<open>failed\<close> is set at the end of a run exactly when some update of
  severity WARNING or CRITICAL was emitted, so that the OK summary appears exactly when
  no such verdict occurred. On scenario 3 the run emits the CRITICAL verdict for the
  missing prefix through the response directly: \<open>failed\<close> stays unset and
  \<open>UpdateStatus\<close> appends the OK summary after the CRITICAL verdict.
\<close>

theorem missing_prefix_leaves_failed_unset:
  "fst (UpdateStatus missingPrefixWorld demoCheck missingPrefixJob) = None \<and>
   resp (snd (UpdateStatus missingPrefixWorld demoCheck missingPrefixJob)) =
     [(CRITICAL, Quote missingPrefixWorld ''tank/a'' @ '' has no snapshots with prefix '' @
                 Quote missingPrefixWorld ''hourly-''),
      (OK, ''job '' @ Quote missingPrefixWorld ''snap'' @ '': all snapshots count: 0'')] \<and>
   failed (snd (UpdateStatus missingPrefixWorld demoCheck missingPrefixJob)) = False"
  by (simp add: run_defs missingPrefixWorld_def missingPrefixJob_def demoCheck_def
      demoMissingCountRule_def applyCountRule_cases spec_count_outcome_def
      no_snapshots_text_def updateStatus_eq jobPrefix_def decimal.simps digit_def)

text \<open>
  Claim C2 says that in latest mode the summary age at the end of the run is the minimum
  of the truncated ages over all OK evaluations. The code recognises the first OK by
  \<open>age = 0\<close>. With snapshots 5 s, 0.5 s and 7 s old, the second age truncates to 0,
  becomes the summary age, and is then taken for "not yet set": the run ends with the
  summary age 7 s of snapshot \<open>s3\<close>, while the minimum is 0 s of snapshot \<open>s2\<close>.
\<close>

theorem fresh_snapshot_resets_latest_age:
  "fst (UpdateStatus freshSnapshotWorld NewSnapCheck freshSnapshotJob) = None \<and>
   map fst (resp (snd (UpdateStatus freshSnapshotWorld NewSnapCheck freshSnapshotJob))) = [OK] \<and>
   age (snd (UpdateStatus freshSnapshotWorld NewSnapCheck freshSnapshotJob)) = 7 * Second \<and>
   snapName (snd (UpdateStatus freshSnapshotWorld NewSnapCheck freshSnapshotJob)) = ''s3'' \<and>
   Truncate (Since (now freshSnapshotWorld) (100 * Second - 500000000)) Second = 0"
  by (simp add: run_defs freshSnapshotWorld_def freshSnapshotJob_def applyCreationRule_def
      Since_def Truncate_def go_rem_def Second_def minDuration_def maxDuration_def
      updateStatus_eq)

section \<open>Reset and running again\<close>




lemma snapshots_snd:
  "snd (snapshots W s fsName) =
     (case datasets s fsName of
        Some snaps \<Rightarrow> s
      | None \<Rightarrow> (case zfsListSnapshots W fsName of
                   Inl e \<Rightarrow> s
                 | Inr snaps \<Rightarrow> s\<lparr>datasets := (datasets s)(fsName \<mapsto> snaps)\<rparr>))"
  by (simp add: snapshots_def split: option.splits sum.splits)


lemma snapshots_fields:
  "counts (snd (snapshots W s fsName)) = counts s"
  "oldest (snd (snapshots W s fsName)) = oldest s"
  "job (snd (snapshots W s fsName)) = job s"
  "prefix (snd (snapshots W s fsName)) = prefix s"
  "warn (snd (snapshots W s fsName)) = warn s"
  "crit (snd (snapshots W s fsName)) = crit s"
  "countWarn (snd (snapshots W s fsName)) = countWarn s"
  "countCrit (snd (snapshots W s fsName)) = countCrit s"
  "age (snd (snapshots W s fsName)) = age s"
  "snapCount (snd (snapshots W s fsName)) = snapCount s"
  "snapName (snd (snapshots W s fsName)) = snapName s"
  "failed (snd (snapshots W s fsName)) = failed s"
  "orderedDatasets (snd (snapshots W s fsName)) = orderedDatasets s"
  "maxProcs (snd (snapshots W s fsName)) = maxProcs s"
  "resp (snd (snapshots W s fsName)) = resp s"
  by (simp_all add: snapshots_snd split: option.splits sum.splits)



lemma loaded_update [simp]:
  "loaded W (s\<lparr>resp := r\<rparr>) = loaded W s"
  "loaded W (s\<lparr>failed := f\<rparr>) = loaded W s"
  "loaded W (s\<lparr>snapCount := n\<rparr>) = loaded W s"
  "loaded W (s\<lparr>age := a\<rparr>) = loaded W s"
  "loaded W (s\<lparr>snapName := nm\<rparr>) = loaded W s"
  "loaded W (s\<lparr>job := jb\<rparr>) = loaded W s"
  by (simp_all add: loaded_def fun_eq_iff)


lemma countRulesLoop_Cons:
  "countRulesLoop W s fsName (rule # rules) grouped i =
     (if fst (applyCountRule W s rule fsName (grouped ! i))
      then countRulesLoop W (snd (applyCountRule W s rule fsName (grouped ! i))) fsName rules
             grouped (Suc i)
      else snd (applyCountRule W s rule fsName (grouped ! i)))"
  by (simp split: prod.split bool.split)


lemma checkSnapsCounts_eq:
  "checkSnapsCounts W s fsName rules =
     (case fst (snapshots W s fsName) of
        Inl e \<Rightarrow> (Some e, snd (snapshots W s fsName))
      | Inr snaps \<Rightarrow>
          (None, countRulesLoop W (snd (snapshots W s fsName)) fsName rules
                   (groupSnapshots snaps (map count_Prefix rules)) 0))"
  by (simp add: checkSnapsCounts_def Let_def split: prod.split sum.split)


lemma checkCountsLoop_Cons:
  "checkCountsLoop W s (dataset # rest) rules =
     (case fst (checkSnapsCounts W s dataset rules) of
        Some e \<Rightarrow> (Some e, snd (checkSnapsCounts W s dataset rules))
      | None \<Rightarrow> checkCountsLoop W (snd (checkSnapsCounts W s dataset rules)) rest rules)"
  by (simp split: prod.split option.split)



lemma creationRulesLoop_Cons:
  "creationRulesLoop W s fsName (rule # rules) grouped i =
     (if fst (applyCreationRule W s rule (Snapshot (grouped ! i) (oldest s)) fsName)
      then creationRulesLoop W
             (snd (applyCreationRule W s rule (Snapshot (grouped ! i) (oldest s)) fsName))
             fsName rules grouped (Suc i)
      else snd (applyCreationRule W s rule (Snapshot (grouped ! i) (oldest s)) fsName))"
  by (simp add: Let_def split: prod.split bool.split)


lemma checkSnapsCreation_eq:
  "checkSnapsCreation W s fsName rules =
     (case fst (snapshots W s fsName) of
        Inl e \<Rightarrow> (Some e, snd (snapshots W s fsName))
      | Inr snaps \<Rightarrow>
          (None, creationRulesLoop W (snd (snapshots W s fsName)) fsName rules
                   (groupSnapshots snaps (map age_Prefix rules)) 0))"
  by (simp add: checkSnapsCreation_def Let_def split: prod.split sum.split)


lemma checkCreationLoop_Cons:
  "checkCreationLoop W s (dataset # rest) rules =
     (case fst (checkSnapsCreation W s dataset rules) of
        Some e \<Rightarrow> (Some e, snd (checkSnapsCreation W s dataset rules))
      | None \<Rightarrow> checkCreationLoop W (snd (checkSnapsCreation W s dataset rules)) rest rules)"
  by (simp split: prod.split option.split)







lemma applyCreationRule_kept: "config_kept W s (snd (applyCreationRule W s rule snap fsName))"
  by (cases snap)
     (simp_all add: applyCreationRule_def Let_def updateStatus_eq respUpdateStatus_def
        config_kept_def)









lemma preloadLoop_frame: "\<exists>D. snd (preloadLoop W s ds) = s\<lparr>datasets := D\<rparr>"
proof (induction ds arbitrary: s)
  case Nil
  show ?case by (rule exI [of _ "datasets s"]) simp
next
  case (Cons d ds)
  show ?case
  proof (cases "zfsListSnapshots W d")
    case (Inl e)
    show ?thesis by (rule exI [of _ "datasets s"]) (simp add: Inl)
  next
    case (Inr snaps)
    then show ?thesis using Cons [of "s\<lparr>datasets := (datasets s)(d \<mapsto> snaps)\<rparr>"] by auto
  qed
qed















section \<open>Choice of the rule list\<close>






section \<open>Resolution of the dataset list\<close>

lemma rootFsLoop_filter:
  "\<forall>fs\<in>set (map fst props). \<exists>path. NewDatasetPath W fs = Inr path \<Longrightarrow>
   rootFsLoop W rootPath skipN props filtered =
     Inr (filtered @ map fst (filter (retained W rootPath skipN) props))"
proof (induction props arbitrary: filtered)
  case Nil
  then show ?case by simp
next
  case (Cons fp props)
  obtain fs p where fp: "fp = (fs, p)" by (cases fp)
  obtain path where path: "NewDatasetPath W fs = Inr path"
    using Cons.prems fp by auto
  have ih: "rootFsLoop W rootPath skipN props acc =
     Inr (acc @ map fst (filter (retained W rootPath skipN) props))" for acc
    using Cons.IH Cons.prems by simp
  have keep: "retained W rootPath skipN (fs, p) \<longleftrightarrow>
      \<not> int (length path) < int (length rootPath) + 1 + skipN \<and>
      \<not> (Source p = SourceLocal \<and> Value p = ''on'')"
    by (auto simp: retained_def path)
  show ?case
  proof (cases "retained W rootPath skipN (fs, p)")
    case True
    then show ?thesis using keep by (simp add: fp path ih)
  next
    case False
    then show ?thesis using keep by (auto simp: fp path ih)
  qed
qed

lemma rootFsLoop_distinct:
  "rootFsLoop W rootPath skipN props filtered = Inr found \<Longrightarrow>
   distinct (filtered @ map fst props) \<Longrightarrow>
   distinct found \<and> set found \<subseteq> set filtered \<union> set (map fst props)"
proof (induction props arbitrary: filtered)
  case Nil
  then show ?case by simp
next
  case (Cons fp props)
  obtain fs p where fp: "fp = (fs, p)" by (cases fp)
  from Cons.prems(1) obtain path where path: "NewDatasetPath W fs = Inr path"
    by (cases "NewDatasetPath W fs") (auto simp: fp)
  show ?case
  proof (cases "retained W rootPath skipN (fs, p)")
    case True
    then have "rootFsLoop W rootPath skipN props (filtered @ [fs]) = Inr found"
      using Cons.prems(1) by (auto simp: fp path retained_def split: if_splits)
    moreover have "distinct ((filtered @ [fs]) @ map fst props)"
      using Cons.prems(2) by (simp add: fp)
    ultimately have "distinct found \<and> set found \<subseteq> set (filtered @ [fs]) \<union> set (map fst props)"
      by (rule Cons.IH)
    then show ?thesis by (auto simp: fp)
  next
    case False
    then have "rootFsLoop W rootPath skipN props filtered = Inr found"
      using Cons.prems(1) by (auto simp: fp path retained_def split: if_splits)
    moreover have "distinct (filtered @ map fst props)"
      using Cons.prems(2) by (simp add: fp)
    ultimately have "distinct found \<and> set found \<subseteq> set filtered \<union> set (map fst props)"
      by (rule Cons.IH)
    then show ?thesis by (auto simp: fp)
  qed
qed

lemma filterLoop_distinct:
  "filterLoop W filesystems items filtered = Inr found \<Longrightarrow>
   distinct (filtered @ listed_names items) \<Longrightarrow>
   distinct found \<and> set found \<subseteq> set filtered \<union> set (listed_names items)"
proof (induction items arbitrary: filtered)
  case Nil
  then show ?case by simp
next
  case (Cons item items)
  from Cons.prems(1) obtain name where item: "item = Inr name"
    by (cases item) auto
  from Cons.prems(1) obtain path where path: "NewDatasetPath W name = Inr path"
    by (cases "NewDatasetPath W name") (auto simp: item)
  from Cons.prems(1) obtain ok where ok: "filesystems path = Inr ok"
    by (cases "filesystems path") (auto simp: item path)
  have ln: "listed_names (item # items) = name # listed_names items"
    by (simp add: listed_names_def item)
  show ?case
  proof (cases ok)
    case True
    then have "filterLoop W filesystems items (filtered @ [name]) = Inr found"
      using Cons.prems(1) by (simp add: item path ok)
    moreover have "distinct ((filtered @ [name]) @ listed_names items)"
      using Cons.prems(2) by (simp add: ln)
    ultimately have "distinct found \<and>
        set found \<subseteq> set (filtered @ [name]) \<union> set (listed_names items)"
      by (rule Cons.IH)
    then show ?thesis by (auto simp: ln)
  next
    case False
    then have "filterLoop W filesystems items filtered = Inr found"
      using Cons.prems(1) by (simp add: item path ok)
    moreover have "distinct (filtered @ listed_names items)"
      using Cons.prems(2) by (simp add: ln)
    ultimately have "distinct found \<and> set found \<subseteq> set filtered \<union> set (listed_names items)"
      by (rule Cons.IH)
    then show ?thesis by (auto simp: ln)
  qed
qed

lemma jobDatasetsSwitch_distinct:
  assumes "inventory_names_unique W" and "jobDatasetsSwitch W j = Inr found"
  shows "distinct found"
proof -
  have flt: "datasetsFromFilter W ff = Inr found \<Longrightarrow> distinct found" for ff
  proof -
    assume a: "datasetsFromFilter W ff = Inr found"
    then obtain filesystems where "filterLoop W filesystems (ZFSListIter W) [] = Inr found"
      by (cases "DatasetMapFilterFromConfig W ff") (auto simp: datasetsFromFilter_def)
    moreover have "distinct ([] @ listed_names (ZFSListIter W))"
      using assms(1) by (simp add: inventory_names_unique_def)
    ultimately show "distinct found" using filterLoop_distinct by blast
  qed
  have root: "datasetsFromRootFs W rootFs skipN = Inr found \<Longrightarrow> distinct found" for rootFs skipN
  proof -
    assume a: "datasetsFromRootFs W rootFs skipN = Inr found"
    then obtain rootPath where rp: "NewDatasetPath W rootFs = Inr rootPath"
      by (cases "NewDatasetPath W rootFs") (auto simp: datasetsFromRootFs_def)
    from a rp obtain props where pr: "ZFSGetRecursive W rootFs = Inr props"
      by (cases "ZFSGetRecursive W rootFs") (auto simp: datasetsFromRootFs_def)
    have "rootFsLoop W rootPath skipN props [] = Inr found"
      using a rp pr by (simp add: datasetsFromRootFs_def)
    moreover have "distinct ([] @ map fst props)"
      using assms(1) pr by (simp add: inventory_names_unique_def)
    ultimately show "distinct found" using rootFsLoop_distinct by blast
  qed
  show ?thesis
    using assms(2) flt root by (cases j) auto
qed

lemma jobDatasets_ordered:
  assumes "orderedDatasets self = None" and "jobDatasetsSwitch W j = Inr found"
  shows "orderedDatasets (snd (jobDatasets W self j)) = Some (sort found)"
proof -
  let ?s = "self\<lparr>orderedDatasets := Some (sort found), datasets := Map.empty\<rparr>"
  obtain D where "snd (preloadLoop W ?s (datasetList ?s)) = ?s\<lparr>datasets := D\<rparr>"
    using preloadLoop_frame by blast
  then show ?thesis using assms by (simp add: jobDatasets_def preloadSnapshots_def)
qed

text \<open>
  Claim C6. After resolution \<open>orderedDatasets\<close> is sorted lexicographically and holds
  every dataset name at most once: it is the sorted list of the set of names the
  resolver returned, for an inventory that names each filesystem once.
\<close>

theorem ordered_datasets_sorted_unique:
  assumes "orderedDatasets self = None" and "inventory_names_unique W"
    and "jobDatasetsSwitch W j = Inr found"
  shows "\<exists>ds. orderedDatasets (snd (jobDatasets W self j)) = Some ds \<and>
           sorted ds \<and> distinct ds \<and> ds = sorted_list_of_set (set found)"
proof -
  have d: "distinct found" using assms(2,3) by (rule jobDatasetsSwitch_distinct)
  have "sort found = sorted_list_of_set (set found)"
    using d by (simp add: sorted_list_of_set_sort_remdups distinct_remdups_id)
  moreover have "sorted (sort found)" "distinct (sort found)" using d by simp_all
  ultimately show ?thesis using jobDatasets_ordered [OF assms(1,3)] by simp
qed


theorem ordered_datasets_sorted_unique_witness:
  "orderedDatasets NewSnapCheck = None \<and> inventory_names_unique rootWorld \<and>
   jobDatasetsSwitch rootWorld (SnapJob ''snap'' [] noMonitor) = Inr [''tank/b'', ''tank/a''] \<and>
   (\<exists>ds. orderedDatasets (snd (jobDatasets rootWorld NewSnapCheck (SnapJob ''snap'' [] noMonitor)))
           = Some ds \<and>
         sorted ds \<and> distinct ds \<and> ds = sorted_list_of_set (set [''tank/b'', ''tank/a'']))"
proof -
  have h1: "orderedDatasets NewSnapCheck = None" by (simp add: NewSnapCheck_def)
  have h2: "inventory_names_unique rootWorld"
    by (simp add: inventory_names_unique_def rootWorld_def demoWorld_def listed_names_def
        rootProps_def)
  have h3: "jobDatasetsSwitch rootWorld (SnapJob ''snap'' [] noMonitor) = Inr [''tank/b'', ''tank/a'']"
    by (simp add: rootWorld_def demoWorld_def datasetsFromFilter_def)
  show ?thesis
    using ordered_datasets_sorted_unique [OF h1 h2 h3] h1 h2 h3 by blast
qed

text \<open>
  Claim C7. For a pull job (skip 0) and a sink job (skip 1) the resolver returns exactly
  the descendants of the root whose path has at least \<open>length root + 1 + skip\<close> segments
  and whose placeholder property is not \<open>on\<close> with source \<open>local\<close>.
\<close>

theorem root_driven_resolution:
  assumes "NewDatasetPath W rootFS = Inr rootPath" and "ZFSGetRecursive W rootFS = Inr props"
    and "\<forall>fs\<in>set (map fst props). \<exists>path. NewDatasetPath W fs = Inr path"
  shows "jobDatasetsSwitch W (PullJob n rootFS m) =
           Inr (map fst (filter (retained W rootPath 0) props)) \<and>
         jobDatasetsSwitch W (SinkJob n' rootFS m') =
           Inr (map fst (filter (retained W rootPath 1) props))"
  using assms rootFsLoop_filter [OF assms(3), of rootPath _ "[]"]
  by (simp add: datasetsFromRootFs_def)

theorem root_driven_resolution_witness:
  "NewDatasetPath rootWorld ''tank'' = Inr [''tank''] \<and>
   ZFSGetRecursive rootWorld ''tank'' = Inr rootProps \<and>
   map (NewDatasetPath rootWorld) (map fst rootProps) =
     [Inr [''tank'', ''b''], Inr [''tank'', ''a'', ''x''], Inr [''tank''], Inr [''tank'', ''a'']] \<and>
   jobDatasetsSwitch rootWorld (PullJob ''pull'' ''tank'' noMonitor) =
     Inr (map fst (filter (retained rootWorld [''tank''] 0) rootProps)) \<and>
   jobDatasetsSwitch rootWorld (SinkJob ''sink'' ''tank'' noMonitor) =
     Inr (map fst (filter (retained rootWorld [''tank''] 1) rootProps)) \<and>
   map fst (filter (retained rootWorld [''tank''] 0) rootProps) = [''tank/a/x'', ''tank/a''] \<and>
   map fst (filter (retained rootWorld [''tank''] 1) rootProps) = [''tank/a/x'']"
proof -
  have h1: "NewDatasetPath rootWorld ''tank'' = Inr [''tank'']"
    by (simp add: rootWorld_def demoWorld_def)
  have h2: "ZFSGetRecursive rootWorld ''tank'' = Inr rootProps"
    by (simp add: rootWorld_def)
  have h3: "\<forall>fs\<in>set (map fst rootProps). \<exists>path. NewDatasetPath rootWorld fs = Inr path"
    by (simp add: rootWorld_def demoWorld_def)
  have e0: "map fst (filter (retained rootWorld [''tank''] 0) rootProps) = [''tank/a/x'', ''tank/a'']"
    by (simp add: retained_def rootProps_def rootWorld_def demoWorld_def)
  have e1: "map fst (filter (retained rootWorld [''tank''] 1) rootProps) = [''tank/a/x'']"
    by (simp add: retained_def rootProps_def rootWorld_def demoWorld_def)
  have h4: "map (NewDatasetPath rootWorld) (map fst rootProps) =
     [Inr [''tank'', ''b''], Inr [''tank'', ''a'', ''x''], Inr [''tank''], Inr [''tank'', ''a'']]"
    by (simp add: rootWorld_def demoWorld_def rootProps_def)
  show ?thesis
    using root_driven_resolution [OF h1 h2 h3, of "''pull''" noMonitor "''sink''" noMonitor]
      h1 h2 h4 e0 e1
    by simp
qed

section \<open>Short-circuit evaluation\<close>

lemma applyCountRule_fst: "fst (applyCountRule W s rule fsName g) = count_rule_passes rule g"
  by (cases "spec_count_outcome rule (Count g)")
     (simp_all add: applyCountRule_cases count_rule_passes_def)

lemma applyCreationRule_fst:
  "fst (applyCreationRule W s rule snap fsName) = age_rule_passes W rule snap"
  by (cases snap) (simp_all add: applyCreationRule_def age_rule_passes_def Let_def)

lemma countRulesStop_bounds:
  "countRulesStop rules grouped i = Some k \<Longrightarrow> i \<le> k \<and> k < i + length rules"
proof (induction rules arbitrary: i)
  case Nil
  then show ?case by simp
next
  case (Cons rule rules)
  then show ?case by (fastforce split: if_splits)
qed

lemma creationRulesStop_bounds:
  "creationRulesStop W old rules grouped i = Some k \<Longrightarrow> i \<le> k \<and> k < i + length rules"
proof (induction rules arbitrary: i)
  case Nil
  then show ?case by simp
next
  case (Cons rule rules)
  then show ?case by (fastforce split: if_splits)
qed

lemma take_Suc_Cons_eq:
  "take (Suc n) rules' = take (Suc n) (rule # rules) \<Longrightarrow>
   \<exists>rest. rules' = rule # rest \<and> take n rest = take n rules"
  by (cases rules') auto

lemma countRulesLoop_cut:
  "countRulesStop rules grouped i = Some k \<Longrightarrow>
   (\<forall>m. i \<le> m \<and> m \<le> k \<longrightarrow> grouped' ! m = grouped ! m) \<Longrightarrow>
   take (Suc k - i) rules' = take (Suc k - i) rules \<Longrightarrow>
   countRulesLoop W s fsName rules' grouped' i = countRulesLoop W s fsName rules grouped i"
proof (induction rules arbitrary: rules' i s)
  case Nil
  then show ?case by simp
next
  case (Cons rule rules)
  from countRulesStop_bounds [OF Cons.prems(1)] have ik: "i \<le> k" by simp
  then have "Suc k - i = Suc (k - i)" by simp
  with Cons.prems(3) obtain rest where r': "rules' = rule # rest"
    and tk: "take (k - i) rest = take (k - i) rules"
    using take_Suc_Cons_eq [of "k - i" rules' rule rules] by auto
  have gi: "grouped' ! i = grouped ! i" using Cons.prems(2) ik by simp
  show ?case
  proof (cases "count_rule_passes rule (grouped ! i)")
    case True
    then have st: "countRulesStop rules grouped (Suc i) = Some k"
      using Cons.prems(1) by simp
    from countRulesStop_bounds [OF st] have "Suc i \<le> k" by simp
    then have d: "Suc k - Suc i = k - i" by simp
    have g: "\<forall>m. Suc i \<le> m \<and> m \<le> k \<longrightarrow> grouped' ! m = grouped ! m"
      using Cons.prems(2) by simp
    have t: "take (Suc k - Suc i) rest = take (Suc k - Suc i) rules"
      using tk d by simp
    have "countRulesLoop W s' fsName rest grouped' (Suc i) =
          countRulesLoop W s' fsName rules grouped (Suc i)" for s'
      using st g t by (rule Cons.IH)
    then show ?thesis
      using True by (simp only: r' countRulesLoop_Cons gi applyCountRule_fst if_True)
  next
    case False
    then show ?thesis
      by (simp only: r' countRulesLoop_Cons gi applyCountRule_fst if_False)
  qed
qed


lemma creationRulesLoop_cut:
  "creationRulesStop W (oldest s) rules grouped i = Some k \<Longrightarrow>
   (\<forall>m. i \<le> m \<and> m \<le> k \<longrightarrow> grouped' ! m = grouped ! m) \<Longrightarrow>
   take (Suc k - i) rules' = take (Suc k - i) rules \<Longrightarrow>
   creationRulesLoop W s fsName rules' grouped' i = creationRulesLoop W s fsName rules grouped i"
proof (induction rules arbitrary: rules' i s)
  case Nil
  then show ?case by simp
next
  case (Cons rule rules)
  from creationRulesStop_bounds [OF Cons.prems(1)] have ik: "i \<le> k" by simp
  then have "Suc k - i = Suc (k - i)" by simp
  with Cons.prems(3) obtain rest where r': "rules' = rule # rest"
    and tk: "take (k - i) rest = take (k - i) rules"
    using take_Suc_Cons_eq [of "k - i" rules' rule rules] by auto
  have gi: "grouped' ! i = grouped ! i" using Cons.prems(2) ik by simp
  let ?snap = "Snapshot (grouped ! i) (oldest s)"
  show ?case
  proof (cases "age_rule_passes W rule ?snap")
    case True
    let ?s = "snd (applyCreationRule W s rule ?snap fsName)"
    have o: "oldest ?s = oldest s"
      using applyCreationRule_kept [of W s rule ?snap fsName] by (simp add: config_kept_def)
    have st: "creationRulesStop W (oldest ?s) rules grouped (Suc i) = Some k"
      using Cons.prems(1) True by (simp add: o)
    from creationRulesStop_bounds [OF st] have "Suc i \<le> k" by simp
    then have d: "Suc k - Suc i = k - i" by simp
    have g: "\<forall>m. Suc i \<le> m \<and> m \<le> k \<longrightarrow> grouped' ! m = grouped ! m"
      using Cons.prems(2) by simp
    have t: "take (Suc k - Suc i) rest = take (Suc k - Suc i) rules"
      using tk d by simp
    have "creationRulesLoop W ?s fsName rest grouped' (Suc i) =
          creationRulesLoop W ?s fsName rules grouped (Suc i)"
      using st g t by (rule Cons.IH)
    then show ?thesis
      using True by (simp only: r' creationRulesLoop_Cons gi applyCreationRule_fst if_True)
  next
    case False
    then show ?thesis
      by (simp only: r' creationRulesLoop_Cons gi applyCreationRule_fst if_False)
  qed
qed

text \<open>The aggregate of a group depends on the prefixes up to its own index only.\<close>

lemma first_match_at_take:
  assumes "take (Suc k) ps' = take (Suc k) ps" and "i \<le> k" and "k < length ps"
  shows "first_match_at ps' i name = first_match_at ps i name"
proof -
  have len: "k < length ps'"
  proof (rule ccontr)
    assume "\<not> k < length ps'"
    then have "length (take (Suc k) ps') \<le> k" by simp
    moreover have "length (take (Suc k) ps) = Suc k" using assms(3) by simp
    ultimately show False using assms(1) by simp
  qed
  have nth: "ps' ! j = ps ! j" if "j \<le> k" for j
  proof -
    have "take (Suc k) ps' ! j = take (Suc k) ps ! j" using assms(1) by simp
    then show ?thesis using that by simp
  qed
  show ?thesis
    using assms(2,3) len nth by (auto simp: first_match_at_def)
qed

lemma groupSnapshots_take:
  assumes "take (Suc k) ps' = take (Suc k) ps" and "i \<le> k" and "k < length ps"
  shows "groupSnapshots snaps ps' ! i = groupSnapshots snaps ps ! i"
proof -
  have len: "k < length ps'"
  proof (rule ccontr)
    assume "\<not> k < length ps'"
    then have "length (take (Suc k) ps') \<le> k" by simp
    moreover have "length (take (Suc k) ps) = Suc k" using assms(3) by simp
    ultimately show False using assms(1) by simp
  qed
  have "group_members snaps ps' i = group_members snaps ps i"
    using first_match_at_take [OF assms] by (simp add: group_members_def)
  then show ?thesis
    using assms(2,3) len by (simp add: groupSnapshots_nth)
qed

lemma applyCountRule_emits:
  "count_rule_passes rule g \<Longrightarrow> resp (snd (applyCountRule W s rule fsName g)) = resp s"
  "\<not> count_rule_passes rule g \<Longrightarrow>
     \<exists>c m. resp (snd (applyCountRule W s rule fsName g)) = resp s @ [(c, m)] \<and> c \<noteq> OK"
proof -
  show "count_rule_passes rule g \<Longrightarrow> resp (snd (applyCountRule W s rule fsName g)) = resp s"
    by (cases "spec_count_outcome rule (Count g)")
       (simp_all add: applyCountRule_cases count_rule_passes_def)
  show "\<not> count_rule_passes rule g \<Longrightarrow>
     \<exists>c m. resp (snd (applyCountRule W s rule fsName g)) = resp s @ [(c, m)] \<and> c \<noteq> OK"
    by (cases "spec_count_outcome rule (Count g)")
       (simp_all add: applyCountRule_cases count_rule_passes_def)
qed

lemma applyCreationRule_emits:
  "age_rule_passes W rule snap \<Longrightarrow>
     resp (snd (applyCreationRule W s rule snap fsName)) = resp s"
  "\<not> age_rule_passes W rule snap \<Longrightarrow>
     \<exists>c m. resp (snd (applyCreationRule W s rule snap fsName)) = resp s @ [(c, m)] \<and> c \<noteq> OK"
proof -
  show "age_rule_passes W rule snap \<Longrightarrow>
     resp (snd (applyCreationRule W s rule snap fsName)) = resp s"
    by (cases snap)
       (auto simp: applyCreationRule_def age_rule_passes_def Let_def)
  show "\<not> age_rule_passes W rule snap \<Longrightarrow>
     \<exists>c m. resp (snd (applyCreationRule W s rule snap fsName)) = resp s @ [(c, m)] \<and> c \<noteq> OK"
    by (cases snap)
       (auto simp: applyCreationRule_def age_rule_passes_def Let_def updateStatus_eq
        respUpdateStatus_def)
qed

lemma countRulesLoop_emits:
  "countRulesStop rules grouped i = Some k \<Longrightarrow>
   \<exists>c m. resp (countRulesLoop W s fsName rules grouped i) = resp s @ [(c, m)] \<and> c \<noteq> OK"
proof (induction rules arbitrary: i s)
  case Nil
  then show ?case by simp
next
  case (Cons rule rules)
  show ?case
  proof (cases "count_rule_passes rule (grouped ! i)")
    case True
    then have st: "countRulesStop rules grouped (Suc i) = Some k"
      using Cons.prems by simp
    show ?thesis
      using Cons.IH [OF st, of "snd (applyCountRule W s rule fsName (grouped ! i))"]
        applyCountRule_emits(1) [OF True, of W s fsName] True
      by (simp only: countRulesLoop_Cons applyCountRule_fst if_True)
  next
    case False
    then show ?thesis
      using applyCountRule_emits(2) [OF False, of W s fsName]
      by (simp only: countRulesLoop_Cons applyCountRule_fst if_False)
  qed
qed

lemma creationRulesLoop_emits:
  "creationRulesStop W (oldest s) rules grouped i = Some k \<Longrightarrow>
   \<exists>c m. resp (creationRulesLoop W s fsName rules grouped i) = resp s @ [(c, m)] \<and> c \<noteq> OK"
proof (induction rules arbitrary: i s)
  case Nil
  then show ?case by simp
next
  case (Cons rule rules)
  let ?snap = "Snapshot (grouped ! i) (oldest s)"
  show ?case
  proof (cases "age_rule_passes W rule ?snap")
    case True
    let ?s = "snd (applyCreationRule W s rule ?snap fsName)"
    have o: "oldest ?s = oldest s"
      using applyCreationRule_kept [of W s rule ?snap fsName] by (simp add: config_kept_def)
    have st: "creationRulesStop W (oldest ?s) rules grouped (Suc i) = Some k"
      using Cons.prems True by (simp add: o)
    show ?thesis
      using Cons.IH [OF st] applyCreationRule_emits(1) [OF True, of s fsName] True
      by (simp only: creationRulesLoop_Cons applyCreationRule_fst if_True)
  next
    case False
    then show ?thesis
      using applyCreationRule_emits(2) [OF False, of s fsName]
      by (simp only: creationRulesLoop_Cons applyCreationRule_fst if_False)
  qed
qed

lemma counts_short_circuit:
  assumes sn: "fst (snapshots W self fsName) = Inr snaps"
    and st: "countRulesStop rules (groupSnapshots snaps (map count_Prefix rules)) 0 = Some k"
    and tk: "take (Suc k) rules' = take (Suc k) rules"
  shows "checkSnapsCounts W self fsName rules' = checkSnapsCounts W self fsName rules \<and>
         (\<exists>c m. resp (snd (checkSnapsCounts W self fsName rules)) = resp self @ [(c, m)] \<and>
                c \<noteq> OK)"
proof -
  let ?s = "snd (snapshots W self fsName)"
  let ?g = "groupSnapshots snaps (map count_Prefix rules)"
  let ?g' = "groupSnapshots snaps (map count_Prefix rules')"
  have k: "k < length rules" using countRulesStop_bounds [OF st] by simp
  have tp: "take (Suc k) (map count_Prefix rules') = take (Suc k) (map count_Prefix rules)"
    using tk by (simp add: take_map)
  have g: "\<forall>m. 0 \<le> m \<and> m \<le> k \<longrightarrow> ?g' ! m = ?g ! m"
    using groupSnapshots_take [OF tp, of _ snaps] k by simp
  have "countRulesLoop W ?s fsName rules' ?g' 0 = countRulesLoop W ?s fsName rules ?g 0"
    using st g tk by (intro countRulesLoop_cut) simp_all
  then have eq: "checkSnapsCounts W self fsName rules' = checkSnapsCounts W self fsName rules"
    using sn by (simp add: checkSnapsCounts_eq)
  have "\<exists>c m. resp (countRulesLoop W ?s fsName rules ?g 0) = resp ?s @ [(c, m)] \<and> c \<noteq> OK"
    using st by (rule countRulesLoop_emits)
  then have "\<exists>c m. resp (snd (checkSnapsCounts W self fsName rules)) = resp self @ [(c, m)] \<and>
      c \<noteq> OK"
    using sn by (simp add: checkSnapsCounts_eq snapshots_fields)
  with eq show ?thesis by simp
qed

lemma creation_short_circuit:
  assumes sn: "fst (snapshots W self fsName) = Inr snaps"
    and st: "creationRulesStop W (oldest self) rules
               (groupSnapshots snaps (map age_Prefix rules)) 0 = Some k"
    and tk: "take (Suc k) rules' = take (Suc k) rules"
  shows "checkSnapsCreation W self fsName rules' = checkSnapsCreation W self fsName rules \<and>
         (\<exists>c m. resp (snd (checkSnapsCreation W self fsName rules)) = resp self @ [(c, m)] \<and>
                c \<noteq> OK)"
proof -
  let ?s = "snd (snapshots W self fsName)"
  let ?g = "groupSnapshots snaps (map age_Prefix rules)"
  let ?g' = "groupSnapshots snaps (map age_Prefix rules')"
  have o: "oldest ?s = oldest self" by (simp add: snapshots_fields)
  have st': "creationRulesStop W (oldest ?s) rules ?g 0 = Some k" using st by (simp add: o)
  have k: "k < length rules" using creationRulesStop_bounds [OF st] by simp
  have tp: "take (Suc k) (map age_Prefix rules') = take (Suc k) (map age_Prefix rules)"
    using tk by (simp add: take_map)
  have g: "\<forall>m. 0 \<le> m \<and> m \<le> k \<longrightarrow> ?g' ! m = ?g ! m"
    using groupSnapshots_take [OF tp, of _ snaps] k by simp
  have "creationRulesLoop W ?s fsName rules' ?g' 0 = creationRulesLoop W ?s fsName rules ?g 0"
    using st' g tk by (intro creationRulesLoop_cut) simp_all
  then have eq: "checkSnapsCreation W self fsName rules' = checkSnapsCreation W self fsName rules"
    using sn by (simp add: checkSnapsCreation_eq)
  have "\<exists>c m. resp (creationRulesLoop W ?s fsName rules ?g 0) = resp ?s @ [(c, m)] \<and> c \<noteq> OK"
    using st' by (rule creationRulesLoop_emits)
  then have "\<exists>c m. resp (snd (checkSnapsCreation W self fsName rules)) = resp self @ [(c, m)] \<and>
      c \<noteq> OK"
    using sn by (simp add: checkSnapsCreation_eq snapshots_fields)
  with eq show ?thesis by simp
qed

lemma next_dataset:
  assumes "fst (snapshots W self fsName) = Inr snaps"
  shows "checkCountsLoop W self (fsName # rest) rules =
           checkCountsLoop W (snd (checkSnapsCounts W self fsName rules)) rest rules"
    and "checkCreationLoop W self (fsName # rest) arules =
           checkCreationLoop W (snd (checkSnapsCreation W self fsName arules)) rest arules"
  using assms
  by (simp_all add: checkCountsLoop_Cons checkCreationLoop_Cons checkSnapsCounts_eq
      checkSnapsCreation_eq)

text \<open>
  Claim C5. Within a dataset the rules are evaluated in order and the first rule with a
  non-OK verdict ends the evaluation of that dataset: when the first rule that does not
  pass has index \<open>k\<close>, exactly one update, of non-OK severity, is appended, and the
  whole resulting state (response, total count, summary age and name) is the same for
  every rule list that agrees up to index \<open>k\<close>, in count mode and in age mode. The loop
  over the datasets goes on to the next dataset from the state the current one left,
  whatever its verdict; only a failed snapshot load stops it.
\<close>

theorem first_failing_rule_ends_dataset:
  "(fst (snapshots W self fsName) = Inr snaps \<longrightarrow>
    countRulesStop rules (groupSnapshots snaps (map count_Prefix rules)) 0 = Some k \<longrightarrow>
    take (Suc k) rules' = take (Suc k) rules \<longrightarrow>
      checkSnapsCounts W self fsName rules' = checkSnapsCounts W self fsName rules \<and>
      (\<exists>c m. resp (snd (checkSnapsCounts W self fsName rules)) = resp self @ [(c, m)] \<and>
             c \<noteq> OK)) \<and>
   (fst (snapshots W self fsName) = Inr snaps \<longrightarrow>
    creationRulesStop W (oldest self) arules
      (groupSnapshots snaps (map age_Prefix arules)) 0 = Some ka \<longrightarrow>
    take (Suc ka) arules' = take (Suc ka) arules \<longrightarrow>
      checkSnapsCreation W self fsName arules' = checkSnapsCreation W self fsName arules \<and>
      (\<exists>c m. resp (snd (checkSnapsCreation W self fsName arules)) = resp self @ [(c, m)] \<and>
             c \<noteq> OK)) \<and>
   (fst (snapshots W self fsName) = Inr snaps \<longrightarrow>
      checkCountsLoop W self (fsName # rest) rules =
        checkCountsLoop W (snd (checkSnapsCounts W self fsName rules)) rest rules \<and>
      checkCreationLoop W self (fsName # rest) arules =
        checkCreationLoop W (snd (checkSnapsCreation W self fsName arules)) rest arules)"
proof (intro conjI impI)
  assume "fst (snapshots W self fsName) = Inr snaps"
    and "countRulesStop rules (groupSnapshots snaps (map count_Prefix rules)) 0 = Some k"
    and "take (Suc k) rules' = take (Suc k) rules"
  then show "checkSnapsCounts W self fsName rules' = checkSnapsCounts W self fsName rules"
    and "\<exists>c m. resp (snd (checkSnapsCounts W self fsName rules)) = resp self @ [(c, m)] \<and>
             c \<noteq> OK"
    using counts_short_circuit [of W self fsName snaps rules k rules'] by simp_all
next
  assume "fst (snapshots W self fsName) = Inr snaps"
    and "creationRulesStop W (oldest self) arules
      (groupSnapshots snaps (map age_Prefix arules)) 0 = Some ka"
    and "take (Suc ka) arules' = take (Suc ka) arules"
  then show "checkSnapsCreation W self fsName arules' = checkSnapsCreation W self fsName arules"
    and "\<exists>c m. resp (snd (checkSnapsCreation W self fsName arules)) = resp self @ [(c, m)] \<and>
             c \<noteq> OK"
    using creation_short_circuit [of W self fsName snaps arules ka arules'] by simp_all
next
  assume a: "fst (snapshots W self fsName) = Inr snaps"
  show "checkCountsLoop W self (fsName # rest) rules =
        checkCountsLoop W (snd (checkSnapsCounts W self fsName rules)) rest rules"
    using a by (rule next_dataset(1))
  show "checkCreationLoop W self (fsName # rest) arules =
        checkCreationLoop W (snd (checkSnapsCreation W self fsName arules)) rest arules"
    using a by (rule next_dataset(2))
qed

theorem first_failing_rule_ends_dataset_witness:
  "fst (snapshots demoCountWorld demoDone ''tank/a'') = Inr demoThree \<and>
   countRulesStop [demoMissingCountRule]
     (groupSnapshots demoThree (map count_Prefix [demoMissingCountRule])) 0 = Some 0 \<and>
   take (Suc 0) [demoMissingCountRule, demoCountRule] = take (Suc 0) [demoMissingCountRule] \<and>
   creationRulesStop demoCountWorld (oldest demoDone) [demoMissingAgeRule]
     (groupSnapshots demoThree (map age_Prefix [demoMissingAgeRule])) 0 = Some 0 \<and>
   take (Suc 0) [demoMissingAgeRule, demoAgeRule] = take (Suc 0) [demoMissingAgeRule] \<and>
   checkSnapsCounts demoCountWorld demoDone ''tank/a'' [demoMissingCountRule, demoCountRule] =
     checkSnapsCounts demoCountWorld demoDone ''tank/a'' [demoMissingCountRule] \<and>
   (\<exists>c m. resp (snd (checkSnapsCounts demoCountWorld demoDone ''tank/a'' [demoMissingCountRule]))
            = resp demoDone @ [(c, m)] \<and> c \<noteq> OK) \<and>
   checkSnapsCreation demoCountWorld demoDone ''tank/a'' [demoMissingAgeRule, demoAgeRule] =
     checkSnapsCreation demoCountWorld demoDone ''tank/a'' [demoMissingAgeRule] \<and>
   (\<exists>c m. resp (snd (checkSnapsCreation demoCountWorld demoDone ''tank/a'' [demoMissingAgeRule]))
            = resp demoDone @ [(c, m)] \<and> c \<noteq> OK) \<and>
   checkCountsLoop demoCountWorld demoDone [''tank/a''] [demoMissingCountRule] =
     checkCountsLoop demoCountWorld
       (snd (checkSnapsCounts demoCountWorld demoDone ''tank/a'' [demoMissingCountRule])) []
       [demoMissingCountRule] \<and>
   checkCreationLoop demoCountWorld demoDone [''tank/a''] [demoMissingAgeRule] =
     checkCreationLoop demoCountWorld
       (snd (checkSnapsCreation demoCountWorld demoDone ''tank/a'' [demoMissingAgeRule])) []
       [demoMissingAgeRule]"
proof -
  have h1: "fst (snapshots demoCountWorld demoDone ''tank/a'') = Inr demoThree"
    by (simp add: snapshots_def demoDone_def)
  have h2: "countRulesStop [demoMissingCountRule]
     (groupSnapshots demoThree (map count_Prefix [demoMissingCountRule])) 0 = Some 0"
    by (simp add: count_rule_passes_def spec_count_outcome_def demoMissingCountRule_def
        demoThree_def groupSnapshots_def emptyGroup_def HasPrefix_def)
  have h3: "take (Suc 0) [demoMissingCountRule, demoCountRule] = take (Suc 0) [demoMissingCountRule]"
    by simp
  have h4: "creationRulesStop demoCountWorld (oldest demoDone) [demoMissingAgeRule]
     (groupSnapshots demoThree (map age_Prefix [demoMissingAgeRule])) 0 = Some 0"
    by (simp add: age_rule_passes_def demoMissingAgeRule_def Snapshot_def
        demoThree_def groupSnapshots_def emptyGroup_def HasPrefix_def)
  have h5: "take (Suc 0) [demoMissingAgeRule, demoAgeRule] = take (Suc 0) [demoMissingAgeRule]"
    by simp
  show ?thesis
    using first_failing_rule_ends_dataset [of demoCountWorld demoDone "''tank/a''" demoThree
        "[demoMissingCountRule]" 0 "[demoMissingCountRule, demoCountRule]"
        "[demoMissingAgeRule]" 0 "[demoMissingAgeRule, demoAgeRule]" "[]"]
      h1 h2 h3 h4 h5
    by blast
qed

end
